theory Spec2Isabelle
  imports
    Main
    "HOL-Library.Word"
    "HOL-Library.Multiset"
    "HOL-Library.Signed_Division"
begin

section \<open>The ADLv1 backend of goofys (internal/backend\_adlv1.go)\<close>

text \<open>
  The adapter talks to a remote hierarchical file system through an SDK client. The
  embedding keeps every function of the adapter that the verified properties are about,
  under its own name, and makes the remote explicit: a remote call appends its request to
  a history, and the reply is a function of the history so far and of the request. A
  deterministic remote with any internal state is such a function, and the history is at
  the same time the log of what the adapter has sent.
\<close>

subsection \<open>The functions of Go's strings package that the adapter uses\<close>

text \<open>\<open>strings.TrimLeft(s, cutset)\<close> and \<open>strings.TrimRight(s, cutset)\<close>.\<close>

definition TrimLeft :: "string \<Rightarrow> string \<Rightarrow> string" where
  "TrimLeft s cutset = dropWhile (\<lambda>c. c \<in> set cutset) s"

definition TrimRight :: "string \<Rightarrow> string \<Rightarrow> string" where
  "TrimRight s cutset = rev (dropWhile (\<lambda>c. c \<in> set cutset) (rev s))"

text \<open>\<open>strings.HasSuffix(s, suffix)\<close>.\<close>

definition HasSuffix :: "string \<Rightarrow> string \<Rightarrow> bool" where
  "HasSuffix s suffix =
     (length suffix \<le> length s \<and> drop (length s - length suffix) s = suffix)"

text \<open>
  \<open>strings.Split(s, sep)\<close> for a separator of one byte, the only use the adapter makes
  of it: the pieces between the separators, so one piece more than there are separators.
\<close>

fun Split :: "string \<Rightarrow> char \<Rightarrow> string list" where
  "Split [] sep = [[]]"
| "Split (c # cs) sep =
     (if c = sep then [] # Split cs sep
      else (case Split cs sep of
              [] \<Rightarrow> [[c]]
            | p # ps \<Rightarrow> (c # p) # ps))"

text \<open>\<open>strings.Compare(a, b)\<close>: bytewise lexicographic comparison, \<open>-1\<close>, \<open>0\<close> or \<open>1\<close>.\<close>

fun Compare :: "string \<Rightarrow> string \<Rightarrow> int" where
  "Compare [] [] = 0"
| "Compare [] (y # ys) = - 1"
| "Compare (x # xs) [] = 1"
| "Compare (x # xs) (y # ys) =
     (if (of_char x :: nat) < of_char y then - 1
      else if (of_char y :: nat) < of_char x then 1
      else Compare xs ys)"

subsection \<open>Errors, responses and the remote\<close>

datatype Errno = EAGAIN | EINVAL | ENOENT | ENOTSUP | EACCES | EEXIST | EINTR

record RemoteException =
  Exception :: string
  Message :: string
  JavaClassName :: string

text \<open>
  An \<open>http.Response\<close>, as far as the adapter reads it: the status code, and what the JSON
  decoder makes of the body (\<open>None\<close> when the body does not decode into the error
  envelope).
\<close>

record Response =
  StatusCode :: int
  Body :: "RemoteException option"

text \<open>
  A Go \<open>error\<close> value: an errno (\<open>syscall.Errno\<close>, of which \<open>fuse.ENOENT\<close>,
  \<open>fuse.EINVAL\<close> and \<open>fuse.EEXIST\<close> are instances), the structured \<open>ADLv1Err\<close>
  with its decoded envelope and the response it came from, or any other error.
\<close>

datatype error =
    Errno Errno
  | ADLv1Err RemoteException Response
  | OtherError string

text \<open>A UUID is sixteen bytes and a body is a byte sequence: both are strings of bytes.\<close>

type_synonym UUID = string
type_synonym bytes = string
type_synonym uint32 = "32 word"
type_synonym uint64 = "64 word"

datatype SyncFlag = DATA | METADATA | CLOSE | PIPELINE

text \<open>One entry of a directory listing (\<open>adl.FileStatusProperties\<close>), with the fields read.\<close>

record FileStatusProperties =
  PathSuffix :: string
  Type :: string
  Length :: uint64
  ModificationTime :: int

text \<open>
  The requests the adapter sends, each with the arguments of the SDK method after the
  context, in the SDK's order.
  \<^item> \<open>ListFileStatus account listFilePath listSize listAfter listBefore tooID\<close>
  \<^item> \<open>Delete account filePath recursive\<close>
  \<^item> \<open>Create account path streamContents overwrite syncFlag leaseID permission\<close>
  \<^item> \<open>Append account path streamContents offset syncFlag leaseID fileSessionID\<close>

  An argument that the SDK takes as a pointer is an option, \<open>None\<close> for nil. The
  adapter converts the offset of an append from \<open>uint64\<close> to \<open>int64\<close> and the file
  mode to \<open>int32\<close>; the conversions keep the bits, and the requests carry the words.
\<close>

datatype request =
    ListFileStatus string string "uint32 option" string string "bool option"
  | Delete string string "bool option"
  | Create string string bytes "bool option" SyncFlag "UUID option" "uint32 option"
  | Append string string bytes "uint64 option" SyncFlag "UUID option" "UUID option"

text \<open>
  What a call gives back: the HTTP response (\<open>None\<close> for a nil pointer), the transport
  error, and the decoded payload (the listing for \<open>ListFileStatus\<close>, the boolean for
  \<open>Delete\<close>). The payload is taken as decoded: where the adapter reads the listing or
  the boolean, they are there, and their fields are values. The nil pointers that a reply
  could hold in their place, which the adapter would dereference, are outside the model.
\<close>

record reply =
  resp :: "Response option"
  err :: "error option"
  FileStatus :: "FileStatusProperties list"
  OperationResult :: bool

type_synonym history = "request list"

text \<open>
  The backend instance. \<open>client\<close> is the remote. The last four fields stand for
  functions the file calls and does not define: \<open>mapHttpError\<close> (the table from HTTP
  status to errno, \<open>None\<close> where it has no entry), \<open>uuid.FromString\<close>, the
  \<open>String\<close> method of a UUID, and \<open>nilStr\<close> (from a string pointer to a string).
\<close>

record ADLv1 =
  account :: string
  bucket :: string
  FileMode :: uint32
  client :: "history \<Rightarrow> request \<Rightarrow> reply"
  mapHttpError :: "int \<Rightarrow> error option"
  uuid_FromString :: "string \<Rightarrow> error + UUID"
  uuid_String :: "UUID \<Rightarrow> string"
  nilStr :: "string option \<Rightarrow> string"

definition call :: "ADLv1 \<Rightarrow> history \<Rightarrow> request \<Rightarrow> history \<times> reply" where
  "call b h q = (h @ [q], client b h q)"

subsection \<open>mapADLv1Error and path\<close>

definition mapADLv1Error :: "ADLv1 \<Rightarrow> Response option \<Rightarrow> error option \<Rightarrow> bool \<Rightarrow> error option" where
  "mapADLv1Error b rsp e rawError =
     (case rsp of
        None \<Rightarrow> (if e \<noteq> None then Some (Errno EAGAIN) else e)
      | Some r \<Rightarrow>
          if StatusCode r < 200 \<or> StatusCode r \<ge> 300 then
            (if rawError then
               (case Body r of
                  Some ex \<Rightarrow> Some (ADLv1Err ex r)
                | None \<Rightarrow> Some (Errno EAGAIN))
             else
               (case mapHttpError b (StatusCode r) of
                  Some e' \<Rightarrow> Some e'
                | None \<Rightarrow> Some (Errno EINVAL)))
          else None)"

definition path :: "ADLv1 \<Rightarrow> string \<Rightarrow> string" where
  "path b key =
     (let key = TrimLeft key ''/'' in
      if bucket b \<noteq> '''' then
        (if key \<noteq> '''' then bucket b @ ''/'' @ key else bucket b)
      else key)"

subsection \<open>Listing\<close>

datatype Time = Unix int int

text \<open>
  \<open>adlv1LastModified\<close>: \<open>time.Unix(t/1000, t%1000000)\<close>, with Go's division and
  remainder, which truncate towards zero.
\<close>

definition adlv1LastModified :: "int \<Rightarrow> Time" where
  "adlv1LastModified t = Unix (t sdiv 1000) (t smod 1000000)"

record BlobItemOutput =
  Key :: string
  LastModified :: "Time option"
  Size :: uint64

record BlobPrefixOutput =
  Prefix :: string

definition adlv1FileStatus2BlobItem :: "FileStatusProperties \<Rightarrow> string \<Rightarrow> BlobItemOutput" where
  "adlv1FileStatus2BlobItem f key =
     \<lparr>Key = key,
      LastModified = Some (adlv1LastModified (ModificationTime f)),
      Size = Length f\<rparr>"

text \<open>
  What \<open>appendToListResults\<close> returns: the listing it fetched (\<open>None\<close> for the empty
  \<open>adl.FileStatusesResult\<close>), the prefixes, the items and the error. The budget
  \<open>maxKeys\<close> is a pointer that the function writes through, so the model passes its
  value in and out, next to the history.
\<close>

type_synonym list_results =
  "reply option \<times> BlobPrefixOutput list \<times> BlobItemOutput list \<times> error option"

type_synonym list_call =
  "history \<Rightarrow> string \<Rightarrow> bool \<Rightarrow> string \<Rightarrow> uint32 option \<Rightarrow>
   BlobPrefixOutput list \<Rightarrow> BlobItemOutput list \<Rightarrow>
   (history \<times> uint32 option \<times> list_results) option"

text \<open>
  The loop over the fetched entries (lines 297 to 320). \<open>rec\<close> is the recursive call of
  \<open>appendToListResults\<close>. After that call the loop takes over the prefixes and the items
  it returned, which are nil when it failed; the error it returned is assigned to \<open>err\<close>
  and never read, so the loop does not carry it.
\<close>

fun list_loop ::
  "list_call \<Rightarrow> history \<Rightarrow> string \<Rightarrow> bool \<Rightarrow> uint32 option \<Rightarrow>
   BlobPrefixOutput list \<Rightarrow> BlobItemOutput list \<Rightarrow> FileStatusProperties list \<Rightarrow>
   (history \<times> uint32 option \<times> BlobPrefixOutput list \<times> BlobItemOutput list) option" where
  "list_loop rec h pth recursive maxKeys prefixes items [] =
     Some (h, maxKeys, prefixes, items)"
| "list_loop rec h pth recursive maxKeys prefixes items (i # rest) =
     (let key = (if pth \<noteq> '''' then pth @ ''/'' @ PathSuffix i else PathSuffix i) in
      if Type i = ''DIRECTORY'' then
        if recursive then
          (case rec h key recursive '''' maxKeys prefixes
                  (items @ [adlv1FileStatus2BlobItem i (key @ ''/'')]) of
             None \<Rightarrow> None
           | Some (h', maxKeys', (_, prefixes', items', _)) \<Rightarrow>
               list_loop rec h' pth recursive maxKeys' prefixes' items' rest)
        else
          list_loop rec h pth recursive maxKeys
            (prefixes @ [\<lparr>Prefix = key @ ''/''\<rparr>]) items rest
      else
        list_loop rec h pth recursive maxKeys prefixes
          (items @ [adlv1FileStatus2BlobItem i key]) rest)"

text \<open>The body of \<open>appendToListResults\<close>, with the recursive call as a parameter.\<close>

definition appendToListResults_body ::
  "list_call \<Rightarrow> ADLv1 \<Rightarrow> history \<Rightarrow> string \<Rightarrow> bool \<Rightarrow> string \<Rightarrow> uint32 option \<Rightarrow>
   BlobPrefixOutput list \<Rightarrow> BlobItemOutput list \<Rightarrow>
   (history \<times> uint32 option \<times> list_results) option" where
  "appendToListResults_body rec b h pth recursive startAfter maxKeys prefixes items =
     (let (h1, res) = call b h (ListFileStatus (account b) (path b pth) None '''' '''' None);
          e = mapADLv1Error b (resp res) (err res) False
      in
      if e \<noteq> None then Some (h1, maxKeys, (None, [], [], e))
      else if pth \<noteq> '''' \<and> length (FileStatus res) = 1
              \<and> PathSuffix (FileStatus res ! 0) = '''' then
        Some (h1, maxKeys,
          (Some res, prefixes,
           (if \<not> HasSuffix pth ''/''
            then items @ [adlv1FileStatus2BlobItem (FileStatus res ! 0) pth]
            else items),
           None))
      else
        (let (prefixes, items) =
               (if pth \<noteq> '''' \<and> \<not> recursive then
                  (if HasSuffix pth ''/''
                   then (prefixes, items @ [\<lparr>Key = pth, LastModified = None, Size = 0\<rparr>])
                   else (prefixes @ [\<lparr>Prefix = pth @ ''/''\<rparr>], items))
                else (prefixes, items));
             pth = TrimRight pth ''/'';
             maxKeys =
               (case maxKeys of
                  None \<Rightarrow> None
                | Some m \<Rightarrow> Some (m - of_nat (length (FileStatus res))))
         in
         case list_loop rec h1 pth recursive maxKeys prefixes items (FileStatus res) of
           None \<Rightarrow> None
         | Some (h2, maxKeys, prefixes, items) \<Rightarrow>
             Some (h2, maxKeys, (Some res, prefixes, items, None))))"

text \<open>
  \<open>appendToListResults\<close> calls itself once per directory level, to a depth the remote
  decides. The first argument bounds the depth of the calls: with none left the function
  does not return (\<open>None\<close>).
\<close>

primrec appendToListResults ::
  "nat \<Rightarrow> ADLv1 \<Rightarrow> history \<Rightarrow> string \<Rightarrow> bool \<Rightarrow> string \<Rightarrow> uint32 option \<Rightarrow>
   BlobPrefixOutput list \<Rightarrow> BlobItemOutput list \<Rightarrow>
   (history \<times> uint32 option \<times> list_results) option" where
  "appendToListResults 0 b = (\<lambda>h pth recursive startAfter maxKeys prefixes items. None)"
| "appendToListResults (Suc n) b = appendToListResults_body (appendToListResults n b) b"

record ListBlobsInput =
  lb_Prefix :: "string option"
  Delimiter :: "string option"
  MaxKeys :: "uint32 option"
  StartAfter :: "string option"
  ContinuationToken :: "string option"

record ListBlobsOutput =
  Prefixes :: "BlobPrefixOutput list"
  Items :: "BlobItemOutput list"
  IsTruncated :: bool

text \<open>
  \<open>ListBlobs\<close> returns the history, the value left in \<open>*param.MaxKeys\<close>, and the output
  or the error.
\<close>

definition ListBlobs ::
  "nat \<Rightarrow> ADLv1 \<Rightarrow> history \<Rightarrow> ListBlobsInput \<Rightarrow>
   (history \<times> uint32 option \<times> (error + ListBlobsOutput)) option" where
  "ListBlobs n b h param =
     (if Delimiter param = None
         \<and> (ContinuationToken param \<noteq> None \<or> StartAfter param \<noteq> None) then
        Some (h, MaxKeys param, Inl (Errno ENOTSUP))
      else if Delimiter param \<noteq> None \<and> Delimiter param \<noteq> Some ''/'' then
        Some (h, MaxKeys param, Inl (Errno ENOTSUP))
      else
        (let recursive = (Delimiter param = None);
             continuationToken =
               (if StartAfter param \<noteq> None then StartAfter param
                else ContinuationToken param)
         in
         case appendToListResults n b h (nilStr b (lb_Prefix param)) recursive
                (nilStr b continuationToken) (MaxKeys param) [] [] of
           None \<Rightarrow> None
         | Some (h', maxKeys', (_, prefixes, items, e)) \<Rightarrow>
             (case (if e = Some (Errno ENOENT) then None else e) of
                Some e' \<Rightarrow> Some (h', maxKeys', Inl e')
              | None \<Rightarrow>
                  Some (h', maxKeys',
                    Inr \<lparr>Prefixes = prefixes, Items = items, IsTruncated = False\<rparr>))))"

subsection \<open>Deleting\<close>

definition DeleteBlob :: "ADLv1 \<Rightarrow> history \<Rightarrow> string \<Rightarrow> history \<times> (error + unit)" where
  "DeleteBlob b h key =
     (let (h1, res) = call b h (Delete (account b) (path b (TrimRight key ''/'')) (Some False))
      in
      case mapADLv1Error b (resp res) (err res) False of
        Some e \<Rightarrow> (h1, Inl e)
      | None \<Rightarrow>
          if \<not> OperationResult res then (h1, Inl (Errno ENOENT))
          else (h1, Inr ()))"

text \<open>The comparison that \<open>DeleteBlobs\<close> hands to \<open>sort.Slice\<close> (lines 377 to 385).\<close>

definition depth :: "string \<Rightarrow> nat" where
  "depth key = length (Split (TrimRight key ''/'') (CHR ''/''))"

definition less_items :: "string \<Rightarrow> string \<Rightarrow> bool" where
  "less_items x y =
     (let depth1 = depth x; depth2 = depth y in
      if depth1 \<noteq> depth2 then depth2 < depth1
      else Compare x y < 0)"

text \<open>
  \<open>sort.Slice\<close> sorts in place by the comparison it is given and is not stable. The model
  is insertion sort. The comparison above orders any two different keys, so every sorting
  algorithm returns the same slice (\<open>sort_Slice_unique\<close> below).
\<close>

fun insert_Slice :: "('a \<Rightarrow> 'a \<Rightarrow> bool) \<Rightarrow> 'a \<Rightarrow> 'a list \<Rightarrow> 'a list" where
  "insert_Slice lt x [] = [x]"
| "insert_Slice lt x (y # ys) =
     (if lt y x then y # insert_Slice lt x ys else x # y # ys)"

definition sort_Slice :: "('a \<Rightarrow> 'a \<Rightarrow> bool) \<Rightarrow> 'a list \<Rightarrow> 'a list" where
  "sort_Slice lt xs = foldr (insert_Slice lt) xs []"

text \<open>The loop of \<open>DeleteBlobs\<close> (lines 387 to 393).\<close>

fun delete_loop :: "ADLv1 \<Rightarrow> history \<Rightarrow> string list \<Rightarrow> history \<times> (error + unit)" where
  "delete_loop b h [] = (h, Inr ())"
| "delete_loop b h (i # rest) =
     (case DeleteBlob b h i of
        (h', Inl e) \<Rightarrow> (h', Inl e)
      | (h', Inr _) \<Rightarrow> delete_loop b h' rest)"

definition DeleteBlobs :: "ADLv1 \<Rightarrow> history \<Rightarrow> string list \<Rightarrow> history \<times> (error + unit)" where
  "DeleteBlobs b h items = delete_loop b h (sort_Slice less_items items)"

subsection \<open>Multipart upload\<close>

text \<open>
  The commit handle. \<open>backendData\<close> is an \<open>interface{}\<close>: it holds the adapter's own
  \<open>ADLv1MultipartBlobCommitInput\<close>, with the cumulative size, or something else.
\<close>

datatype backendData = ADLv1MultipartBlobCommitInput uint64 | OtherBackendData

record MultipartBlobCommitInput =
  mp_Key :: string
  UploadId :: string
  backend_data :: backendData

record MultipartBlobAddInput =
  Commit :: MultipartBlobCommitInput
  add_Body :: bytes
  add_Size :: uint64

text \<open>A function that can panic either panics or returns.\<close>

datatype 'a outcome = Panic string | Returns 'a

text \<open>
  \<open>MultipartBlobBegin\<close>. \<open>newV4\<close> is what \<open>uuid.NewV4()\<close> returned to this call: a fresh
  UUID or an error.
\<close>

definition MultipartBlobBegin ::
  "ADLv1 \<Rightarrow> history \<Rightarrow> error + UUID \<Rightarrow> string \<Rightarrow> history \<times> (error + MultipartBlobCommitInput)" where
  "MultipartBlobBegin b h newV4 key =
     (case newV4 of
        Inl e \<Rightarrow> (h, Inl e)
      | Inr leaseId \<Rightarrow>
          (let (h1, res) = call b h
                 (Create (account b) (path b key) '''' (Some True) DATA (Some leaseId)
                    (Some (FileMode b)))
           in
           case mapADLv1Error b (resp res) (err res) False of
             Some e \<Rightarrow> (h1, Inl e)
           | None \<Rightarrow>
               (h1, Inr \<lparr>mp_Key = path b key,
                         UploadId = uuid_String b leaseId,
                         backend_data = ADLv1MultipartBlobCommitInput 0\<rparr>)))"

definition detectTransientError ::
  "ADLv1 \<Rightarrow> history \<Rightarrow> MultipartBlobAddInput \<Rightarrow> uint64 \<Rightarrow> history \<times> error option" where
  "detectTransientError b h param offset =
     (case uuid_FromString b (UploadId (Commit param)) of
        Inl e \<Rightarrow> (h, Some e)
      | Inr leaseId \<Rightarrow>
          (let (h1, res) = call b h
                 (Append (account b) (mp_Key (Commit param)) '''' (Some offset) CLOSE
                    (Some leaseId) (Some leaseId))
           in (h1, mapADLv1Error b (resp res) (err res) False)))"

definition uploadPart ::
  "ADLv1 \<Rightarrow> history \<Rightarrow> MultipartBlobAddInput \<Rightarrow> uint64 \<Rightarrow> history \<times> error option" where
  "uploadPart b h param offset =
     (case uuid_FromString b (UploadId (Commit param)) of
        Inl e \<Rightarrow> (h, Some e)
      | Inr leaseId \<Rightarrow>
          (let (h1, res) = call b h
                 (Append (account b) (mp_Key (Commit param)) (add_Body param)
                    (Some (offset - add_Size param)) DATA (Some leaseId) (Some leaseId))
           in
           case mapADLv1Error b (resp res) (err res) True of
             None \<Rightarrow> (h1, None)
           | Some (ADLv1Err ex r) \<Rightarrow>
               if StatusCode r = 404 then (h1, Some (Errno EINVAL))
               else if StatusCode r = 400 \<and> Exception ex = ''BadOffsetException'' then
                 (let (h2, appendErr) = detectTransientError b h1 param offset in
                  if appendErr = None then (h2, None)
                  else (h2, mapADLv1Error b (Some r) (Some (ADLv1Err ex r)) False))
               else (h1, mapADLv1Error b (Some r) (Some (ADLv1Err ex r)) False)
           | Some e \<Rightarrow> (h1, Some e)))"

text \<open>
  \<open>MultipartBlobAdd\<close> writes the new cumulative size through \<open>param.Commit\<close>, so the
  model returns the handle as the call leaves it, whatever the call returns.
\<close>

definition MultipartBlobAdd ::
  "ADLv1 \<Rightarrow> history \<Rightarrow> MultipartBlobAddInput \<Rightarrow>
   (history \<times> MultipartBlobCommitInput \<times> (error + unit)) outcome" where
  "MultipartBlobAdd b h param =
     (case backend_data (Commit param) of
        OtherBackendData \<Rightarrow> Panic ''Incorrect commit data type''
      | ADLv1MultipartBlobCommitInput size0 \<Rightarrow>
          (let commit = (Commit param)
                 \<lparr>backend_data := ADLv1MultipartBlobCommitInput (size0 + add_Size param)\<rparr>;
               (h', e) = uploadPart b h (param\<lparr>Commit := commit\<rparr>) (size0 + add_Size param)
           in
           case e of
             Some e' \<Rightarrow> Returns (h', commit, Inl e')
           | None \<Rightarrow> Returns (h', commit, Inr ())))"

definition MultipartBlobCommit ::
  "ADLv1 \<Rightarrow> history \<Rightarrow> MultipartBlobCommitInput \<Rightarrow> (history \<times> (error + unit)) outcome" where
  "MultipartBlobCommit b h param =
     (case backend_data param of
        OtherBackendData \<Rightarrow> Panic ''Incorrect commit data type''
      | ADLv1MultipartBlobCommitInput size0 \<Rightarrow>
          (case uuid_FromString b (UploadId param) of
             Inl e \<Rightarrow> Returns (h, Inl e)
           | Inr leaseId \<Rightarrow>
               (let (h1, res) = call b h
                      (Append (account b) (mp_Key param) '''' (Some size0) CLOSE
                         (Some leaseId) (Some leaseId));
                    e = mapADLv1Error b (resp res) (err res) False;
                    e = (if e = Some (Errno ENOENT) then None else e)
                in
                case e of
                  Some e' \<Rightarrow> Returns (h1, Inl e')
                | None \<Rightarrow> Returns (h1, Inr ()))))"

section \<open>Notions used to state the properties\<close>

text \<open>
  The request that \<open>appendToListResults\<close> sends for a path (lines 259 and 260), the reply
  to it after the history \<open>h\<close>, and the classification of that reply by
  \<open>mapADLv1Error\<close> (line 261).
\<close>

definition list_request :: "ADLv1 \<Rightarrow> string \<Rightarrow> request" where
  "list_request b pth = ListFileStatus (account b) (path b pth) None '''' '''' None"

definition list_reply :: "ADLv1 \<Rightarrow> history \<Rightarrow> string \<Rightarrow> reply" where
  "list_reply b h pth = client b h (list_request b pth)"

definition list_error :: "ADLv1 \<Rightarrow> history \<Rightarrow> string \<Rightarrow> error option" where
  "list_error b h pth =
     mapADLv1Error b (resp (list_reply b h pth)) (err (list_reply b h pth)) False"

text \<open>The test of lines 266 to 268: the listing of a non-empty path shows that it is a file.\<close>

definition names_file :: "ADLv1 \<Rightarrow> history \<Rightarrow> string \<Rightarrow> bool" where
  "names_file b h pth \<longleftrightarrow>
     pth \<noteq> '''' \<and> length (FileStatus (list_reply b h pth)) = 1
     \<and> PathSuffix (FileStatus (list_reply b h pth) ! 0) = ''''"

text \<open>The key of an entry of the listing of \<open>pth\<close> (lines 298 to 301).\<close>

definition child_key :: "string \<Rightarrow> FileStatusProperties \<Rightarrow> string" where
  "child_key pth i = (if pth \<noteq> '''' then pth @ ''/'' @ PathSuffix i else PathSuffix i)"

text \<open>The parameters that \<open>ListBlobs\<close> does not reject (lines 327 to 337).\<close>

definition supported :: "ListBlobsInput \<Rightarrow> bool" where
  "supported param \<longleftrightarrow>
     (Delimiter param = None \<and> ContinuationToken param = None \<and> StartAfter param = None)
     \<or> Delimiter param = Some ''/''"

text \<open>
  The entries fetched by a sequence of directory calls, made one after the other from the
  history \<open>h\<close>: a call counts the entries of its listing when the listing succeeded and
  did not show a file, which are the calls that reach line 294.
\<close>

fun fetched :: "ADLv1 \<Rightarrow> history \<Rightarrow> string list \<Rightarrow> nat" where
  "fetched b h [] = 0"
| "fetched b h (pth # rest) =
     (if list_error b h pth = None \<and> \<not> names_file b h pth
      then length (FileStatus (list_reply b h pth)) else 0)
     + fetched b (h @ [list_request b pth]) rest"

text \<open>
  The item rows that a sequence of directory calls adds for paths that name a file: one
  for each call whose listing succeeded and showed a file, unless the path ends with the
  delimiter (lines 269 to 274).
\<close>

fun file_rows :: "ADLv1 \<Rightarrow> history \<Rightarrow> string list \<Rightarrow> nat" where
  "file_rows b h [] = 0"
| "file_rows b h (pth # rest) =
     (if list_error b h pth = None \<and> names_file b h pth \<and> \<not> HasSuffix pth ''/''
      then 1 else 0)
     + file_rows b (h @ [list_request b pth]) rest"

text \<open>
  Between the histories \<open>h\<close> and \<open>h'\<close> directory listings were sent and nothing else, and
  the items \<open>it'\<close> are the items \<open>it\<close> followed by new rows: \<open>k\<close> rows, one row for each
  entry fetched by those listings, and the rows of the paths that name a file.
\<close>

definition rows_added ::
  "ADLv1 \<Rightarrow> history \<Rightarrow> history \<Rightarrow> BlobItemOutput list \<Rightarrow> BlobItemOutput list \<Rightarrow> nat \<Rightarrow> bool" where
  "rows_added b h h' it it' k \<longleftrightarrow>
     (\<exists>pths rows. h' = h @ map (list_request b) pths \<and> it' = it @ rows
        \<and> length rows = k + fetched b h pths + file_rows b h pths)"

text \<open>The decrement of line 294, on a budget that may be absent.\<close>

definition dec :: "nat \<Rightarrow> uint32 option \<Rightarrow> uint32 option" where
  "dec k mk = (case mk of None \<Rightarrow> None | Some m \<Rightarrow> Some (m - of_nat k))"

text \<open>The classification of the reply to a request sent after the history \<open>h\<close>.\<close>

definition classify :: "ADLv1 \<Rightarrow> history \<Rightarrow> request \<Rightarrow> bool \<Rightarrow> error option" where
  "classify b h q rawError =
     mapADLv1Error b (resp (client b h q)) (err (client b h q)) rawError"

text \<open>
  The append of a part (lines 553 to 555) and the zero-length append with the close flag
  (lines 588 to 590 and 643 to 645), both under the lease of the handle.
\<close>

definition part_request ::
  "ADLv1 \<Rightarrow> MultipartBlobCommitInput \<Rightarrow> bytes \<Rightarrow> uint64 \<Rightarrow> UUID \<Rightarrow> request" where
  "part_request b commit body offset leaseId =
     Append (account b) (mp_Key commit) body (Some offset) DATA (Some leaseId) (Some leaseId)"

definition close_request ::
  "ADLv1 \<Rightarrow> MultipartBlobCommitInput \<Rightarrow> uint64 \<Rightarrow> UUID \<Rightarrow> request" where
  "close_request b commit offset leaseId =
     Append (account b) (mp_Key commit) '''' (Some offset) CLOSE (Some leaseId) (Some leaseId)"

text \<open>
  A caller's sequence of Adds on one handle: each part is a body and its declared size, and
  the next Add gets the handle as the previous one left it, whatever that one returned.
\<close>

definition add_part :: "MultipartBlobCommitInput \<Rightarrow> bytes \<times> uint64 \<Rightarrow> MultipartBlobAddInput" where
  "add_part commit part = \<lparr>Commit = commit, add_Body = fst part, add_Size = snd part\<rparr>"

fun session_adds ::
  "ADLv1 \<Rightarrow> history \<Rightarrow> MultipartBlobCommitInput \<Rightarrow> (bytes \<times> uint64) list \<Rightarrow>
   (history \<times> MultipartBlobCommitInput) outcome" where
  "session_adds b h commit [] = Returns (h, commit)"
| "session_adds b h commit (part # parts) =
     (case MultipartBlobAdd b h (add_part commit part) of
        Panic s \<Rightarrow> Panic s
      | Returns (h', commit', _) \<Rightarrow> session_adds b h' commit' parts)"

text \<open>
  The order of the deletes as the specification words it, stated without the functions of
  the adapter. The depth of a key is the number of pieces that the delimiters cut the key
  into once its trailing delimiters are stripped: one more than the delimiters left in
  it. A key may be deleted before another when it is deeper, or when it is as deep and
  not greater in the lexicographic order of the bytes of the two keys as given.
\<close>

definition key_depth :: "string \<Rightarrow> nat" where
  "key_depth key =
     Suc (count_list (rev (dropWhile (\<lambda>c. c = CHR ''/'') (rev key))) (CHR ''/''))"

definition ordered_items :: "string \<Rightarrow> string \<Rightarrow> bool" where
  "ordered_items x y \<longleftrightarrow>
     key_depth y < key_depth x
     \<or> (key_depth x = key_depth y
         \<and> (x = y \<or> (x, y) \<in> lexord {(c, d). (of_char c :: nat) < of_char d}))"

text \<open>
  The request that deletes one key: a delete, not recursive, of the path of the key
  without its trailing delimiters. The result of the \<open>j\<close>-th delete of a list of keys is
  what \<open>DeleteBlob\<close> returns for it when the deletes before it have been sent.
\<close>

definition delete_request :: "ADLv1 \<Rightarrow> string \<Rightarrow> request" where
  "delete_request b key =
     Delete (account b) (path b (rev (dropWhile (\<lambda>c. c = CHR ''/'') (rev key)))) (Some False)"

definition delete_result :: "ADLv1 \<Rightarrow> history \<Rightarrow> string list \<Rightarrow> nat \<Rightarrow> error + unit" where
  "delete_result b h ks j =
     snd (DeleteBlob b (h @ map (delete_request b) (take j ks)) (ks ! j))"

section \<open>Concrete backends and remotes\<close>

text \<open>
  The concrete runs below use a backend with an example of the status table, with every
  non-empty string as the text of a UUID, and with one of the following remotes.
\<close>

definition httpTable :: "int \<Rightarrow> error option" where
  "httpTable status =
     (if status = 400 then Some (Errno EINVAL)
      else if status = 401 \<or> status = 403 then Some (Errno EACCES)
      else if status = 404 then Some (Errno ENOENT)
      else if status = 405 then Some (Errno ENOTSUP)
      else if status = 409 then Some (Errno EINTR)
      else if status = 429 \<or> status = 500 then Some (Errno EAGAIN)
      else None)"

definition backend :: "string \<Rightarrow> (history \<Rightarrow> request \<Rightarrow> reply) \<Rightarrow> ADLv1" where
  "backend bkt remote =
     \<lparr>account = ''acct'', bucket = bkt, FileMode = 420, client = remote,
      mapHttpError = httpTable,
      uuid_FromString = (\<lambda>s. if s = '''' then Inl (OtherError ''uuid'') else Inr s),
      uuid_String = (\<lambda>u. u),
      nilStr = (\<lambda>v. case v of None \<Rightarrow> '''' | Some s \<Rightarrow> s)\<rparr>"

definition okReply :: "FileStatusProperties list \<Rightarrow> reply" where
  "okReply es =
     \<lparr>resp = Some \<lparr>StatusCode = 200, Body = None\<rparr>, err = None,
      FileStatus = es, OperationResult = True\<rparr>"

definition failReply :: "int \<Rightarrow> RemoteException option \<Rightarrow> reply" where
  "failReply status ex =
     \<lparr>resp = Some \<lparr>StatusCode = status, Body = ex\<rparr>, err = Some (OtherError ''status''),
      FileStatus = [], OperationResult = False\<rparr>"

definition fileEntry :: "string \<Rightarrow> uint64 \<Rightarrow> FileStatusProperties" where
  "fileEntry name len =
     \<lparr>PathSuffix = name, Type = ''FILE'', Length = len, ModificationTime = 1500\<rparr>"

definition dirEntry :: "string \<Rightarrow> FileStatusProperties" where
  "dirEntry name =
     \<lparr>PathSuffix = name, Type = ''DIRECTORY'', Length = 0, ModificationTime = 2500\<rparr>"

text \<open>Every request succeeds.\<close>

definition remote_ok :: "history \<Rightarrow> request \<Rightarrow> reply" where
  "remote_ok h q = okReply []"

text \<open>Every request fails with the given status and a body that is not an error envelope.\<close>

definition remote_status :: "int \<Rightarrow> history \<Rightarrow> request \<Rightarrow> reply" where
  "remote_status status h q = failReply status None"

text \<open>
  A directory \<open>d\<close> with a file \<open>a\<close> and a directory \<open>b\<close>, which holds a file \<open>c\<close>. The
  remote lists \<open>d\<close> under its name with or without a trailing delimiter.
\<close>

definition remote_tree :: "history \<Rightarrow> request \<Rightarrow> reply" where
  "remote_tree h q =
     (case q of
        ListFileStatus a p sz after before too \<Rightarrow>
          (if p = ''d'' \<or> p = ''d/'' then okReply [fileEntry ''a'' 3, dirEntry ''b'']
           else if p = ''d/b'' then okReply [fileEntry ''c'' 5]
           else failReply 404 None)
      | _ \<Rightarrow> failReply 404 None)"

text \<open>
  A root with a directory \<open>x\<close> and a file \<open>y\<close>, where listing \<open>x\<close> fails with the given
  status: 403 for a directory that the caller may not read, 404 for one that was removed
  after the root was listed.
\<close>

definition remote_unlistable :: "int \<Rightarrow> history \<Rightarrow> request \<Rightarrow> reply" where
  "remote_unlistable status h q =
     (case q of
        ListFileStatus a p sz after before too \<Rightarrow>
          (if p = '''' then okReply [dirEntry ''x'', fileEntry ''y'' 1]
           else if p = ''x'' then failReply status None
           else failReply 404 None)
      | _ \<Rightarrow> failReply 404 None)"

text \<open>
  A root with a file \<open>y\<close> and a directory \<open>x\<close>, listed in that order, where \<open>x\<close> was
  removed after the root was listed: its listing fails with status 404, like that of
  every other path.
\<close>

definition remote_removed :: "history \<Rightarrow> request \<Rightarrow> reply" where
  "remote_removed h q =
     (case q of
        ListFileStatus a p sz after before too \<Rightarrow>
          (if p = '''' then okReply [fileEntry ''y'' 1, dirEntry ''x'']
           else failReply 404 None)
      | _ \<Rightarrow> failReply 404 None)"

text \<open>
  A root with a directory \<open>x\<close>, which holds a file \<open>z\<close>, and a file \<open>y\<close>; every other
  path lists as an empty directory, so no listing fails.
\<close>

definition remote_nested :: "history \<Rightarrow> request \<Rightarrow> reply" where
  "remote_nested h q =
     (case q of
        ListFileStatus a p sz after before too \<Rightarrow>
          (if p = '''' then okReply [dirEntry ''x'', fileEntry ''y'' 1]
           else if p = ''x'' then okReply [fileEntry ''z'' 2]
           else okReply [])
      | _ \<Rightarrow> okReply [])"

text \<open>
  Every append of data fails with status 400 and a bad-offset envelope, and the append
  with the close flag gets the given reply.
\<close>

definition badOffset :: RemoteException where
  "badOffset =
     \<lparr>Exception = ''BadOffsetException'', Message = ''offset'', JavaClassName = ''java''\<rparr>"

definition remote_bad_offset :: "reply \<Rightarrow> history \<Rightarrow> request \<Rightarrow> reply" where
  "remote_bad_offset probe h q =
     (case q of
        Append a p body offset flag lease session \<Rightarrow>
          (if flag = CLOSE then probe else failReply 400 (Some badOffset))
      | _ \<Rightarrow> okReply [])"

definition delimited :: "string \<Rightarrow> uint32 option \<Rightarrow> ListBlobsInput" where
  "delimited prefix budget =
     \<lparr>lb_Prefix = Some prefix, Delimiter = Some ''/'', MaxKeys = budget,
      StartAfter = None, ContinuationToken = None\<rparr>"

definition flat :: "ListBlobsInput" where
  "flat =
     \<lparr>lb_Prefix = None, Delimiter = None, MaxKeys = None,
      StartAfter = None, ContinuationToken = None\<rparr>"

section \<open>Path mapping\<close>

lemma TrimLeft_slash: "TrimLeft s ''/'' = dropWhile (\<lambda>c. c = CHR ''/'') s"
  by (simp add: TrimLeft_def)

lemma TrimLeft_idem: "TrimLeft (TrimLeft s cs) cs = TrimLeft s cs"
  by (simp add: TrimLeft_def)

text \<open>
  C8. \<open>path\<close> strips the leading delimiters of the key; with a root prefix configured it
  returns the prefix, \<open>/\<close> and the stripped key, and the prefix alone when the stripped
  key is empty; with an empty root prefix it returns the stripped key and is idempotent.
\<close>

theorem path_mapping:
  "(bucket b \<noteq> '''' \<longrightarrow>
      path b key =
        (if dropWhile (\<lambda>c. c = CHR ''/'') key = '''' then bucket b
         else bucket b @ ''/'' @ dropWhile (\<lambda>c. c = CHR ''/'') key))
   \<and> (bucket b = '''' \<longrightarrow>
      path b key = dropWhile (\<lambda>c. c = CHR ''/'') key
      \<and> path b (path b key) = path b key)"
  by (simp add: path_def TrimLeft_def Let_def)

theorem path_mapping_witness:
  "path (backend ''root'' remote_ok) ''//a/b'' = ''root/a/b''
   \<and> path (backend ''root'' remote_ok) ''/'' = ''root''
   \<and> path (backend '''' remote_ok) ''//a/b'' = ''a/b''
   \<and> path (backend '''' remote_ok) (path (backend '''' remote_ok) ''//a/b'') =
       path (backend '''' remote_ok) ''//a/b''"
  using path_mapping [of "backend ''root'' remote_ok" "''//a/b''"]
    path_mapping [of "backend ''root'' remote_ok" "''/''"]
    path_mapping [of "backend '''' remote_ok" "''//a/b''"]
    path_mapping [of "backend '''' remote_ok" "''a/b''"]
  by (simp add: backend_def)

section \<open>Listing\<close>

subsection \<open>One call of appendToListResults\<close>

lemma body_error:
  "list_error b h pth = Some e \<Longrightarrow>
   appendToListResults_body rec b h pth r sa mk p i =
     Some (h @ [list_request b pth], mk, (None, [], [], Some e))"
  by (simp add: appendToListResults_body_def call_def list_error_def list_reply_def
      list_request_def Let_def)

lemma body_file:
  "list_error b h pth = None \<Longrightarrow> pth \<noteq> '''' \<Longrightarrow>
   FileStatus (list_reply b h pth) = [f] \<Longrightarrow> PathSuffix f = '''' \<Longrightarrow>
   appendToListResults_body rec b h pth r sa mk p i =
     Some (h @ [list_request b pth], mk,
       (Some (list_reply b h pth), p,
        (if \<not> HasSuffix pth ''/'' then i @ [adlv1FileStatus2BlobItem f pth] else i), None))"
  by (simp add: appendToListResults_body_def call_def list_error_def list_reply_def
      list_request_def Let_def)

lemma body_directory:
  "list_error b h pth = None \<Longrightarrow>
   \<not> (pth \<noteq> '''' \<and> length (FileStatus (list_reply b h pth)) = 1
      \<and> PathSuffix (FileStatus (list_reply b h pth) ! 0) = '''') \<Longrightarrow>
   appendToListResults_body rec b h pth r sa mk p i =
     (case list_loop rec (h @ [list_request b pth]) (TrimRight pth ''/'') r
             (case mk of None \<Rightarrow> None
              | Some m \<Rightarrow> Some (m - of_nat (length (FileStatus (list_reply b h pth)))))
             (p @ (if pth \<noteq> '''' \<and> \<not> r \<and> \<not> HasSuffix pth ''/''
                   then [\<lparr>Prefix = pth @ ''/''\<rparr>] else []))
             (i @ (if pth \<noteq> '''' \<and> \<not> r \<and> HasSuffix pth ''/''
                   then [\<lparr>Key = pth, LastModified = None, Size = 0\<rparr>] else []))
             (FileStatus (list_reply b h pth)) of
        None \<Rightarrow> None
      | Some (h2, mk2, p2, i2) \<Rightarrow> Some (h2, mk2, (Some (list_reply b h pth), p2, i2, None)))"
  unfolding appendToListResults_body_def call_def list_error_def list_reply_def
      list_request_def Let_def
  by (cases "pth = ''''"; cases r; cases "HasSuffix pth ''/''"; auto cong: option.case_cong)

lemma body_startAfter:
  "appendToListResults_body rec b h pth r sa mk p i =
   appendToListResults_body rec b h pth r sa' mk p i"
  by (simp add: appendToListResults_body_def)

lemma appendToListResults_startAfter:
  "appendToListResults n b h pth r sa mk p i = appendToListResults n b h pth r sa' mk p i"
  by (cases n) (simp_all add: body_startAfter)

subsection \<open>The loop over the entries\<close>

lemma list_loop_directory_recursive:
  "Type i = ''DIRECTORY'' \<Longrightarrow>
   list_loop rec h pth True mk p it (i # rest) =
     (case rec h (child_key pth i) True '''' mk p
             (it @ [adlv1FileStatus2BlobItem i (child_key pth i @ ''/'')]) of
        None \<Rightarrow> None
      | Some (h', mk', (_, p', it', _)) \<Rightarrow> list_loop rec h' pth True mk' p' it' rest)"
  by (simp add: child_key_def Let_def)

lemma list_loop_directory_nonrecursive:
  "Type i = ''DIRECTORY'' \<Longrightarrow>
   list_loop rec h pth False mk p it (i # rest) =
     list_loop rec h pth False mk (p @ [\<lparr>Prefix = child_key pth i @ ''/''\<rparr>]) it rest"
  by (simp add: child_key_def Let_def)

lemma list_loop_leaf:
  "Type i \<noteq> ''DIRECTORY'' \<Longrightarrow>
   list_loop rec h pth r mk p it (i # rest) =
     list_loop rec h pth r mk p (it @ [adlv1FileStatus2BlobItem i (child_key pth i)]) rest"
  by (simp add: child_key_def Let_def)

lemma list_loop_nonrecursive:
  "list_loop rec h pth False mk p it es =
     Some (h, mk,
       p @ map (\<lambda>i. \<lparr>Prefix = child_key pth i @ ''/''\<rparr>) (filter (\<lambda>i. Type i = ''DIRECTORY'') es),
       it @ map (\<lambda>i. adlv1FileStatus2BlobItem i (child_key pth i))
              (filter (\<lambda>i. Type i \<noteq> ''DIRECTORY'') es))"
  by (induction es arbitrary: p it) (simp_all add: child_key_def Let_def)

subsection \<open>ListBlobs\<close>

lemma ListBlobs_unsupported:
  "\<not> supported param \<Longrightarrow> ListBlobs n b h param = Some (h, MaxKeys param, Inl (Errno ENOTSUP))"
  unfolding ListBlobs_def supported_def by (cases "Delimiter param") auto

lemma ListBlobs_supported:
  "supported param \<Longrightarrow>
   ListBlobs n b h param =
     (case appendToListResults n b h (nilStr b (lb_Prefix param)) (Delimiter param = None)
             '''' (MaxKeys param) [] [] of
        None \<Rightarrow> None
      | Some (h', maxKeys', (_, prefixes, items, e)) \<Rightarrow>
          (case (if e = Some (Errno ENOENT) then None else e) of
             Some e' \<Rightarrow> Some (h', maxKeys', Inl e')
           | None \<Rightarrow>
               Some (h', maxKeys',
                 Inr \<lparr>Prefixes = prefixes, Items = items, IsTruncated = False\<rparr>)))"
  unfolding ListBlobs_def supported_def Let_def
  by (subst appendToListResults_startAfter [where sa' = "''''"]) auto

lemma HasSuffix_slash: "HasSuffix s ''/'' \<longleftrightarrow> s \<noteq> [] \<and> last s = CHR ''/''"
  by (cases s rule: rev_cases) (simp_all add: HasSuffix_def)

lemma TrimRight_no_suffix: "\<not> HasSuffix s ''/'' \<Longrightarrow> TrimRight s ''/'' = s"
  by (cases s rule: rev_cases) (simp_all add: HasSuffix_slash TrimRight_def)

text \<open>The fields of the example parameters and the replies of the example remotes.\<close>

lemma flat_fields:
  "lb_Prefix flat = None" "Delimiter flat = None" "MaxKeys flat = None"
  "StartAfter flat = None" "ContinuationToken flat = None"
  by (simp_all add: flat_def)

lemma delimited_fields:
  "lb_Prefix (delimited d mk) = Some d" "Delimiter (delimited d mk) = Some ''/''"
  "MaxKeys (delimited d mk) = mk"
  "StartAfter (delimited d mk) = None" "ContinuationToken (delimited d mk) = None"
  by (simp_all add: delimited_def)

lemma entry_fields:
  "Type (dirEntry n) = ''DIRECTORY''" "Type (fileEntry n l) \<noteq> ''DIRECTORY''"
  "PathSuffix (dirEntry n) = n" "PathSuffix (fileEntry n l) = n"
  by (simp_all add: dirEntry_def fileEntry_def)

lemma backend_fields:
  "account (backend bkt remote) = ''acct''" "bucket (backend bkt remote) = bkt"
  "client (backend bkt remote) = remote" "mapHttpError (backend bkt remote) = httpTable"
  "FileMode (backend bkt remote) = 420"
  "uuid_FromString (backend bkt remote) s = (if s = '''' then Inl (OtherError ''uuid'') else Inr s)"
  "uuid_String (backend bkt remote) u = u"
  "nilStr (backend bkt remote) v = (case v of None \<Rightarrow> '''' | Some s \<Rightarrow> s)"
  by (simp_all add: backend_def)

lemma list_request_example:
  "list_request (backend '''' remote) pth =
     ListFileStatus ''acct'' (dropWhile (\<lambda>c. c = CHR ''/'') pth) None '''' '''' None"
  by (simp add: list_request_def path_def TrimLeft_def backend_fields)

lemma list_error_ok:
  "client b h (list_request b pth) = okReply es \<Longrightarrow> list_error b h pth = None"
  by (simp add: list_error_def list_reply_def okReply_def mapADLv1Error_def)

lemma list_error_status:
  "client b h (list_request b pth) = failReply status ex \<Longrightarrow> mapHttpError b = httpTable \<Longrightarrow>
   status = 403 \<or> status = 404 \<Longrightarrow>
   list_error b h pth = (if status = 404 then Some (Errno ENOENT) else Some (Errno EACCES))"
  by (auto simp: list_error_def list_reply_def failReply_def mapADLv1Error_def httpTable_def)

lemma tree_replies:
  "client (backend '''' remote_tree) h (list_request (backend '''' remote_tree) ''d'') =
     okReply [fileEntry ''a'' 3, dirEntry ''b'']"
  "client (backend '''' remote_tree) h (list_request (backend '''' remote_tree) ''nowhere'') =
     failReply 404 None"
  "client (backend '''' remote_tree) h (list_request (backend '''' remote_tree) ''d/'') =
     okReply [fileEntry ''a'' 3, dirEntry ''b'']"
  by (simp_all add: list_request_example backend_fields remote_tree_def)

lemma removed_replies:
  "client (backend '''' remote_removed) h (list_request (backend '''' remote_removed) '''') =
     okReply [fileEntry ''y'' 1, dirEntry ''x'']"
  "client (backend '''' remote_removed) h (list_request (backend '''' remote_removed) ''x'') =
     failReply 404 None"
  by (simp_all add: list_request_example backend_fields remote_removed_def)

lemma unlistable_replies:
  "client (backend '''' (remote_unlistable s)) h
     (list_request (backend '''' (remote_unlistable s)) '''') =
     okReply [dirEntry ''x'', fileEntry ''y'' 1]"
  "client (backend '''' (remote_unlistable s)) h
     (list_request (backend '''' (remote_unlistable s)) ''x'') = failReply s None"
  by (simp_all add: list_request_example backend_fields remote_unlistable_def)

lemma okReply_FileStatus: "FileStatus (okReply es) = es"
  by (simp add: okReply_def)
subsection \<open>A delimited listing of a directory with a file and a directory\<close>

lemma ListBlobs_two_children:
  assumes "Delimiter param = Some ''/''"
    and "nilStr b (lb_Prefix param) = d"
    and "list_error b h d = None"
    and "FileStatus (list_reply b h d) = [a, c] \<or> FileStatus (list_reply b h d) = [c, a]"
    and "Type a \<noteq> ''DIRECTORY''" and "Type c = ''DIRECTORY''"
  shows "ListBlobs (Suc n) b h param =
     Some (h @ [list_request b d], map_option (\<lambda>m. m - 2) (MaxKeys param),
       Inr \<lparr>Prefixes =
              (if d \<noteq> '''' \<and> \<not> HasSuffix d ''/'' then [\<lparr>Prefix = d @ ''/''\<rparr>] else [])
              @ [\<lparr>Prefix = child_key (TrimRight d ''/'') c @ ''/''\<rparr>],
            Items =
              (if d \<noteq> '''' \<and> HasSuffix d ''/''
               then [\<lparr>Key = d, LastModified = None, Size = 0\<rparr>] else [])
              @ [adlv1FileStatus2BlobItem a (child_key (TrimRight d ''/'') a)],
            IsTruncated = False\<rparr>)"
proof -
  have sup: "supported param"
    using assms(1) by (simp add: supported_def)
  have dir: "\<not> (d \<noteq> '''' \<and> length (FileStatus (list_reply b h d)) = 1
      \<and> PathSuffix (FileStatus (list_reply b h d) ! 0) = '''')"
    using assms(4) by auto
  from assms(4) show ?thesis
  proof
    assume "FileStatus (list_reply b h d) = [a, c]"
    then show ?thesis
      using assms(1,2,5,6)
      by (cases "MaxKeys param")
        (simp_all add: ListBlobs_supported [OF sup] body_directory [OF assms(3) dir]
          child_key_def)
  next
    assume "FileStatus (list_reply b h d) = [c, a]"
    then show ?thesis
      using assms(1,2,5,6)
      by (cases "MaxKeys param")
        (simp_all add: ListBlobs_supported [OF sup] body_directory [OF assms(3) dir]
          child_key_def)
  qed
qed

lemma TrimRight_slashes:
  assumes "d = '''' \<or> last d \<noteq> CHR ''/''"
  shows "TrimRight (d @ replicate j (CHR ''/'')) ''/'' = d"
proof -
  have "dropWhile (\<lambda>c. c = CHR ''/'') (replicate j (CHR ''/'') @ rev d) = rev d"
    using assms by (cases d rule: rev_cases) (simp_all add: dropWhile_append)
  then show ?thesis
    by (simp add: TrimRight_def)
qed

lemma HasSuffix_slashes:
  assumes "d = '''' \<or> last d \<noteq> CHR ''/''"
  shows "HasSuffix (d @ replicate j (CHR ''/'')) ''/'' \<longleftrightarrow> 0 < j"
  using assms by (cases j) (auto simp: HasSuffix_slash replicate_append_same [symmetric]
      simp del: replicate_Suc)

lemma two_children_rows:
  assumes "Delimiter param = Some ''/''"
    and "nilStr b (lb_Prefix param) = q"
    and "q = d @ replicate j (CHR ''/'')"
    and "d = '''' \<or> last d \<noteq> CHR ''/''"
    and "list_error b h q = None"
    and "FileStatus (list_reply b h q) = [a, c] \<or> FileStatus (list_reply b h q) = [c, a]"
    and "Type a \<noteq> ''DIRECTORY''" and "Type c = ''DIRECTORY''"
  shows "ListBlobs (Suc n) b h param =
     Some (h @ [ListFileStatus (account b) (path b q) None '''' '''' None],
       map_option (\<lambda>m. m - 2) (MaxKeys param),
       Inr \<lparr>Prefixes =
              (if d \<noteq> '''' \<and> j = 0 then [\<lparr>Prefix = d @ ''/''\<rparr>] else [])
              @ [\<lparr>Prefix = (if d = '''' then PathSuffix c else d @ ''/'' @ PathSuffix c)
                          @ ''/''\<rparr>],
            Items =
              (if 0 < j then [\<lparr>Key = q, LastModified = None, Size = 0\<rparr>] else [])
              @ [\<lparr>Key = (if d = '''' then PathSuffix a else d @ ''/'' @ PathSuffix a),
                  LastModified = Some (adlv1LastModified (ModificationTime a)),
                  Size = Length a\<rparr>],
            IsTruncated = False\<rparr>)"
proof -
  have t: "TrimRight q ''/'' = d" and s: "HasSuffix q ''/'' \<longleftrightarrow> 0 < j"
    unfolding assms(3) using assms(4) by (rule TrimRight_slashes, rule HasSuffix_slashes)
  have e: "q \<noteq> '''' \<and> \<not> 0 < j \<longleftrightarrow> d \<noteq> '''' \<and> j = 0"
    "q \<noteq> '''' \<and> 0 < j \<longleftrightarrow> 0 < j"
    using assms(3) by auto
  have q0: "q = d" if "j = 0"
    using that assms(3) by simp
  show ?thesis
    unfolding ListBlobs_two_children [OF assms(1,2,5,6,7,8), of n]
    using q0 by (auto simp: t s e child_key_def adlv1FileStatus2BlobItem_def list_request_def)
qed


lemma count_parent_prefix:
  "count_list
     ((if d \<noteq> '''' \<and> j = (0 :: nat) then [\<lparr>Prefix = d @ ''/''\<rparr>] else [])
      @ [\<lparr>Prefix = (if d = '''' then s else d @ ''/'' @ s) @ ''/''\<rparr>])
     \<lparr>Prefix = (if d = '''' then s else d @ ''/'' @ s) @ ''/''\<rparr> = 1"
  by simp

lemma count_leaf_item:
  "count_list
     ((if 0 < (j :: nat) then [\<lparr>Key = q, LastModified = None, Size = 0\<rparr>] else [])
      @ [\<lparr>Key = k, LastModified = Some t, Size = l\<rparr>])
     \<lparr>Key = k, LastModified = Some t, Size = l\<rparr> = 1"
  by simp

text \<open>
  C5. The queried prefix \<open>q\<close> is the name \<open>d\<close> of a directory followed by any number \<open>j\<close> of
  trailing delimiters. A delimited listing of \<open>q\<close> whose directory listing succeeds with
  exactly a leaf \<open>a\<close> and a directory \<open>c\<close>, in either order, sends that one directory
  listing and no other request, and returns without error. The prefix row \<open>d/c/\<close> occurs
  exactly once among the prefixes, and the item row of \<open>a\<close>, with the key \<open>d/a\<close> and the
  size of \<open>a\<close>, exactly once among the items; for the root, whose name is empty, the keys
  are \<open>c/\<close> and \<open>a\<close>. The one other row is the row that the listing adds for a non-empty
  \<open>q\<close> itself: the prefix \<open>d/\<close> when \<open>q\<close> has no trailing delimiter, the item \<open>q\<close> when it
  has.
\<close>

theorem nonrecursive_listing_two_children:
  assumes "Delimiter param = Some ''/''"
    and "nilStr b (lb_Prefix param) = q"
    and "q = d @ replicate j (CHR ''/'')"
    and "d = '''' \<or> last d \<noteq> CHR ''/''"
    and "list_error b h q = None"
    and "FileStatus (list_reply b h q) = [a, c] \<or> FileStatus (list_reply b h q) = [c, a]"
    and "Type a \<noteq> ''DIRECTORY''" and "Type c = ''DIRECTORY''"
  shows "\<exists>ps its.
     ListBlobs (Suc n) b h param =
       Some (h @ [ListFileStatus (account b) (path b q) None '''' '''' None],
         map_option (\<lambda>m. m - 2) (MaxKeys param),
         Inr \<lparr>Prefixes = ps, Items = its, IsTruncated = False\<rparr>)
     \<and> ps = (if d \<noteq> '''' \<and> j = 0 then [\<lparr>Prefix = d @ ''/''\<rparr>] else [])
            @ [\<lparr>Prefix = (if d = '''' then PathSuffix c else d @ ''/'' @ PathSuffix c)
                        @ ''/''\<rparr>]
     \<and> its = (if 0 < j then [\<lparr>Key = q, LastModified = None, Size = 0\<rparr>] else [])
             @ [\<lparr>Key = (if d = '''' then PathSuffix a else d @ ''/'' @ PathSuffix a),
                 LastModified = Some (adlv1LastModified (ModificationTime a)),
                 Size = Length a\<rparr>]
     \<and> count_list ps
          \<lparr>Prefix = (if d = '''' then PathSuffix c else d @ ''/'' @ PathSuffix c) @ ''/''\<rparr> = 1
     \<and> count_list its
          \<lparr>Key = (if d = '''' then PathSuffix a else d @ ''/'' @ PathSuffix a),
           LastModified = Some (adlv1LastModified (ModificationTime a)),
           Size = Length a\<rparr> = 1"
  using two_children_rows [OF assms, of n]
    count_parent_prefix [of d j "PathSuffix c"]
    count_leaf_item [of j q "if d = '''' then PathSuffix a else d @ ''/'' @ PathSuffix a"
      "adlv1LastModified (ModificationTime a)" "Length a"]
  by blast

theorem nonrecursive_listing_two_children_witness:
  "ListBlobs (Suc 0) (backend '''' remote_tree) [] (delimited ''d'' (Some 5)) =
     Some ([ListFileStatus ''acct'' ''d'' None '''' '''' None], Some 3,
       Inr \<lparr>Prefixes = [\<lparr>Prefix = ''d/''\<rparr>, \<lparr>Prefix = ''d/b/''\<rparr>],
            Items = [\<lparr>Key = ''d/a'', LastModified = Some (Unix 1 1500), Size = 3\<rparr>],
            IsTruncated = False\<rparr>)
   \<and> ListBlobs (Suc 0) (backend '''' remote_tree) [] (delimited ''d/'' None) =
     Some ([ListFileStatus ''acct'' ''d/'' None '''' '''' None], None,
       Inr \<lparr>Prefixes = [\<lparr>Prefix = ''d/b/''\<rparr>],
            Items = [\<lparr>Key = ''d/'', LastModified = None, Size = 0\<rparr>,
                     \<lparr>Key = ''d/a'', LastModified = Some (Unix 1 1500), Size = 3\<rparr>],
            IsTruncated = False\<rparr>)"
proof -
  let ?b = "backend '''' remote_tree"
  have 1: "Delimiter (delimited p m) = Some ''/''" for p m
    by (simp add: delimited_fields)
  have 2: "nilStr ?b (lb_Prefix (delimited p m)) = p" for p m
    by (simp add: delimited_fields backend_fields(8))
  have 3: "''d'' = ''d'' @ replicate 0 (CHR ''/'')" "''d/'' = ''d'' @ replicate 1 (CHR ''/'')"
    by simp_all
  have 4: "''d'' = '''' \<or> last ''d'' \<noteq> CHR ''/''"
    by simp
  have 5: "list_error ?b [] ''d'' = None" "list_error ?b [] ''d/'' = None"
    by (rule list_error_ok, rule tree_replies)+
  have 6: "FileStatus (list_reply ?b [] ''d'') = [fileEntry ''a'' 3, dirEntry ''b'']
      \<or> FileStatus (list_reply ?b [] ''d'') = [dirEntry ''b'', fileEntry ''a'' 3]"
    "FileStatus (list_reply ?b [] ''d/'') = [fileEntry ''a'' 3, dirEntry ''b'']
      \<or> FileStatus (list_reply ?b [] ''d/'') = [dirEntry ''b'', fileEntry ''a'' 3]"
    by (simp_all add: list_reply_def tree_replies okReply_FileStatus)
  have 7: "Type (fileEntry ''a'' 3) \<noteq> ''DIRECTORY''" and 8: "Type (dirEntry ''b'') = ''DIRECTORY''"
    by (simp_all add: entry_fields)
  have t: "adlv1LastModified 1500 = Unix 1 1500"
    by (simp add: adlv1LastModified_def signed_divide_int_def signed_modulo_int_def)
  have p: "path ?b ''d'' = ''d''" "path ?b ''d/'' = ''d/''"
    by (simp_all add: path_def TrimLeft_def backend_fields)
  have a: "ListBlobs (Suc 0) ?b [] (delimited ''d'' (Some 5)) =
     Some ([ListFileStatus ''acct'' ''d'' None '''' '''' None], Some 3,
       Inr \<lparr>Prefixes = [\<lparr>Prefix = ''d/''\<rparr>, \<lparr>Prefix = ''d/b/''\<rparr>],
            Items = [\<lparr>Key = ''d/a'', LastModified = Some (Unix 1 1500), Size = 3\<rparr>],
            IsTruncated = False\<rparr>)"
    using nonrecursive_listing_two_children [where n = 0
        and param = "delimited ''d'' (Some 5)", OF 1 2 3(1) 4 5(1) 6(1) 7 8]
    by (simp add: t p fileEntry_def dirEntry_def delimited_fields backend_fields)
  have b: "ListBlobs (Suc 0) ?b [] (delimited ''d/'' None) =
     Some ([ListFileStatus ''acct'' ''d/'' None '''' '''' None], None,
       Inr \<lparr>Prefixes = [\<lparr>Prefix = ''d/b/''\<rparr>],
            Items = [\<lparr>Key = ''d/'', LastModified = None, Size = 0\<rparr>,
                     \<lparr>Key = ''d/a'', LastModified = Some (Unix 1 1500), Size = 3\<rparr>],
            IsTruncated = False\<rparr>)"
    using nonrecursive_listing_two_children [where n = 0
        and param = "delimited ''d/'' None", OF 1 2 3(2) 4 5(2) 6(2) 7 8]
    by (simp add: t p fileEntry_def dirEntry_def delimited_fields backend_fields)
  from a b show ?thesis ..
qed

subsection \<open>ContinuationToken and StartAfter in a delimited listing\<close>

lemma body_nonrecursive_returns:
  "\<exists>mk' res. appendToListResults_body rec b h pth False sa mk p i =
      Some (h @ [list_request b pth], mk', res)"
proof (cases "list_error b h pth")
  case (Some e)
  then show ?thesis by (simp add: body_error)
next
  case None
  show ?thesis
  proof (cases "pth \<noteq> '''' \<and> length (FileStatus (list_reply b h pth)) = 1
      \<and> PathSuffix (FileStatus (list_reply b h pth) ! 0) = ''''")
    case True
    then obtain f where "FileStatus (list_reply b h pth) = [f]" "PathSuffix f = ''''"
      by (cases "FileStatus (list_reply b h pth)") auto
    with None True show ?thesis by (simp add: body_file)
  next
    case False
    show ?thesis
      by (simp add: body_directory [OF None False] list_loop_nonrecursive)
  qed
qed

lemma ListBlobs_delimited_returns:
  assumes "Delimiter param = Some ''/''"
  shows "\<exists>mk r. ListBlobs (Suc n) b h param =
     Some (h @ [list_request b (nilStr b (lb_Prefix param))], mk, r)"
proof -
  have sup: "supported param"
    using assms by (simp add: supported_def)
  obtain mk' res where
    "appendToListResults (Suc n) b h (nilStr b (lb_Prefix param)) False '''' (MaxKeys param) [] [] =
       Some (h @ [list_request b (nilStr b (lb_Prefix param))], mk', res)"
    using body_nonrecursive_returns by (metis appendToListResults.simps(2))
  then show ?thesis
    using assms
    by (cases res) (auto simp: ListBlobs_supported [OF sup] split: option.splits)
qed

lemma ListBlobs_token_irrelevant:
  assumes "Delimiter param = Some ''/''"
  shows "ListBlobs n b h (param\<lparr>StartAfter := sa, ContinuationToken := ct\<rparr>) =
         ListBlobs n b h (param\<lparr>StartAfter := sa', ContinuationToken := ct'\<rparr>)"
  using assms by (simp add: ListBlobs_supported supported_def)

text \<open>
  C10. With the delimiter \<open>/\<close>, two listing calls that differ only in \<open>ContinuationToken\<close>
  and \<open>StartAfter\<close>, made after the same history against the same remote, return the same
  result and send the same requests, for every bound on the depth of the calls. A
  delimited listing returns, and the one request it sends is the directory listing of the
  prefix with empty \<open>listAfter\<close> and \<open>listBefore\<close>: neither argument reaches the remote.
\<close>

theorem delimited_listing_ignores_tokens:
  assumes "Delimiter param = Some ''/''"
  shows "ListBlobs n b h (param\<lparr>StartAfter := sa, ContinuationToken := ct\<rparr>) =
         ListBlobs n b h (param\<lparr>StartAfter := sa', ContinuationToken := ct'\<rparr>)
     \<and> (\<exists>mk r. ListBlobs (Suc n) b h param =
           Some (h @ [ListFileStatus (account b) (path b (nilStr b (lb_Prefix param)))
                        None '''' '''' None], mk, r))"
  using ListBlobs_token_irrelevant [OF assms] ListBlobs_delimited_returns [OF assms]
  by (simp add: list_request_def)

theorem delimited_listing_ignores_tokens_witness:
  "ListBlobs 1 (backend '''' remote_tree) []
     ((delimited ''d'' None)\<lparr>StartAfter := Some ''d/a'', ContinuationToken := Some ''t''\<rparr>) =
   ListBlobs 1 (backend '''' remote_tree) []
     ((delimited ''d'' None)\<lparr>StartAfter := None, ContinuationToken := None\<rparr>)
   \<and> (\<exists>mk r. ListBlobs (Suc 0) (backend '''' remote_tree) [] (delimited ''d'' None) =
         Some ([ListFileStatus ''acct'' ''d'' None '''' '''' None], mk, r))"
proof -
  have 1: "Delimiter (delimited ''d'' None) = Some ''/''"
    by (simp add: delimited_fields)
  have 2: "path (backend '''' remote_tree) ''d'' = ''d''"
    by (simp add: path_def TrimLeft_def backend_fields)
  show ?thesis
    using delimited_listing_ignores_tokens [OF 1, where n = 1 and b = "backend '''' remote_tree"
        and h = "[]" and sa = "Some ''d/a''" and ct = "Some ''t''" and sa' = None and ct' = None]
      delimited_listing_ignores_tokens [OF 1, where n = 0 and b = "backend '''' remote_tree"
        and h = "[]"]
    by (simp add: delimited_fields 2 backend_fields)
qed

subsection \<open>Not found\<close>

text \<open>
  How the two callers of \<open>appendToListResults\<close> handle its error. When the directory
  listing of the queried prefix itself is classified as not found, \<open>ListBlobs\<close> returns
  an empty result and no error, after that one request; any other classification of that
  listing is returned as the error. The loop over the entries does not look at the error
  of the call it makes for a directory: whatever the classification, not found included,
  it goes on to the next entry with the empty lists that the failed call returned in
  place of the rows collected so far.
\<close>

theorem listing_error_handling:
  "(supported param \<and> list_error b h (nilStr b (lb_Prefix param)) = Some (Errno ENOENT) \<longrightarrow>
      ListBlobs (Suc n) b h param =
        Some (h @ [list_request b (nilStr b (lb_Prefix param))], MaxKeys param,
          Inr \<lparr>Prefixes = [], Items = [], IsTruncated = False\<rparr>))
   \<and> (supported param \<and> list_error b h (nilStr b (lb_Prefix param)) = Some e
        \<and> e \<noteq> Errno ENOENT \<longrightarrow>
      ListBlobs (Suc n) b h param =
        Some (h @ [list_request b (nilStr b (lb_Prefix param))], MaxKeys param, Inl e))
   \<and> (Type i = ''DIRECTORY'' \<and> list_error b h (child_key pth i) = Some e' \<longrightarrow>
      list_loop (appendToListResults (Suc n) b) h pth True mk prefixes items (i # rest) =
      list_loop (appendToListResults (Suc n) b) (h @ [list_request b (child_key pth i)])
        pth True mk [] [] rest)"
  by (simp add: ListBlobs_supported body_error list_loop_directory_recursive
      del: list_loop.simps)

theorem listing_error_handling_witness:
  "ListBlobs (Suc 0) (backend '''' remote_tree) [] (delimited ''nowhere'' None) =
     Some ([ListFileStatus ''acct'' ''nowhere'' None '''' '''' None], None,
       Inr \<lparr>Prefixes = [], Items = [], IsTruncated = False\<rparr>)
   \<and> ListBlobs (Suc 0) (backend '''' (remote_unlistable 403)) [] (delimited ''x'' None) =
     Some ([ListFileStatus ''acct'' ''x'' None '''' '''' None], None, Inl (Errno EACCES))
   \<and> list_loop (appendToListResults (Suc 0) (backend '''' (remote_unlistable 404)))
       [ListFileStatus ''acct'' '''' None '''' '''' None] '''' True None []
       [adlv1FileStatus2BlobItem (fileEntry ''w'' 1) ''w'']
       [dirEntry ''x'', fileEntry ''y'' 1] =
     Some ([ListFileStatus ''acct'' '''' None '''' '''' None,
            ListFileStatus ''acct'' ''x'' None '''' '''' None],
           None, [], [adlv1FileStatus2BlobItem (fileEntry ''y'' 1) ''y''])"
proof -
  have sup: "supported (delimited d None)" for d
    by (simp add: supported_def delimited_fields)
  have 1: "list_error (backend '''' remote_tree) []
      (nilStr (backend '''' remote_tree) (lb_Prefix (delimited ''nowhere'' None))) =
    Some (Errno ENOENT)"
    using list_error_status [OF tree_replies(2), of "[]"]
    by (simp add: delimited_fields backend_fields)
  have 2: "list_error (backend '''' (remote_unlistable 403)) []
      (nilStr (backend '''' (remote_unlistable 403)) (lb_Prefix (delimited ''x'' None))) =
    Some (Errno EACCES)"
    using list_error_status [OF unlistable_replies(2), of 403 "[]"]
    by (simp add: delimited_fields backend_fields)
  have 3: "list_error (backend '''' (remote_unlistable 404))
      [ListFileStatus ''acct'' '''' None '''' '''' None]
      (child_key '''' (dirEntry ''x'')) = Some (Errno ENOENT)"
    using list_error_status [OF unlistable_replies(2), of 404
        "[ListFileStatus ''acct'' '''' None '''' '''' None]"]
    by (simp add: child_key_def entry_fields backend_fields)
  have a: "ListBlobs (Suc 0) (backend '''' remote_tree) [] (delimited ''nowhere'' None) =
     Some ([ListFileStatus ''acct'' ''nowhere'' None '''' '''' None], None,
       Inr \<lparr>Prefixes = [], Items = [], IsTruncated = False\<rparr>)"
    using listing_error_handling [where param = "delimited ''nowhere'' None"
        and b = "backend '''' remote_tree" and h = "[]" and n = 0, THEN conjunct1] sup 1
    by (simp add: delimited_fields backend_fields(8) list_request_example)
  have b: "ListBlobs (Suc 0) (backend '''' (remote_unlistable 403)) [] (delimited ''x'' None) =
     Some ([ListFileStatus ''acct'' ''x'' None '''' '''' None], None, Inl (Errno EACCES))"
    using listing_error_handling [where param = "delimited ''x'' None"
        and b = "backend '''' (remote_unlistable 403)" and h = "[]" and e = "Errno EACCES"
        and n = 0, THEN conjunct2, THEN conjunct1] sup 2
    by (simp add: delimited_fields backend_fields(8) list_request_example)
  have c: "list_loop (appendToListResults (Suc 0) (backend '''' (remote_unlistable 404)))
       [ListFileStatus ''acct'' '''' None '''' '''' None] '''' True None []
       [adlv1FileStatus2BlobItem (fileEntry ''w'' 1) ''w'']
       [dirEntry ''x'', fileEntry ''y'' 1] =
     list_loop (appendToListResults (Suc 0) (backend '''' (remote_unlistable 404)))
       ([ListFileStatus ''acct'' '''' None '''' '''' None]
        @ [list_request (backend '''' (remote_unlistable 404)) (child_key '''' (dirEntry ''x''))])
       '''' True None [] [] [fileEntry ''y'' 1]"
    using listing_error_handling [where b = "backend '''' (remote_unlistable 404)"
        and h = "[ListFileStatus ''acct'' '''' None '''' '''' None]" and n = 0
        and i = "dirEntry ''x''" and pth = "''''" and e' = "Errno ENOENT" and mk = None
        and prefixes = "[]" and items = "[adlv1FileStatus2BlobItem (fileEntry ''w'' 1) ''w'']"
        and rest = "[fileEntry ''y'' 1]", THEN conjunct2, THEN conjunct2] 3
    by (simp only: entry_fields simp_thms)
  have d: "list_loop rec
       ([ListFileStatus ''acct'' '''' None '''' '''' None]
        @ [list_request (backend '''' (remote_unlistable 404)) (child_key '''' (dirEntry ''x''))])
       '''' True None [] [] [fileEntry ''y'' 1] =
     Some ([ListFileStatus ''acct'' '''' None '''' '''' None,
            ListFileStatus ''acct'' ''x'' None '''' '''' None],
           None, [], [adlv1FileStatus2BlobItem (fileEntry ''y'' 1) ''y''])" for rec
    by (simp add: list_loop_leaf entry_fields child_key_def list_request_example
        del: list_loop.simps(2))
  from a b c d show ?thesis by simp
qed
text \<open>
  C7 at a concrete remote. The root holds a file \<open>y\<close> and a directory \<open>x\<close>, and the listing
  of \<open>x\<close>, sent during the recursion, is classified as not found. The recursive listing of
  the root sends both directory listings and returns an empty result and no error: the
  row of \<open>y\<close> and the placeholder row \<open>x/\<close> are gone. It is the result that a listing of
  the prefix \<open>x\<close> itself returns at this remote, where the not-found listing is the
  top-level one.
\<close>

theorem nested_not_found_empties_listing:
  "list_error (backend '''' remote_removed) [ListFileStatus ''acct'' '''' None '''' '''' None]
     ''x'' = Some (Errno ENOENT)
   \<and> ListBlobs 2 (backend '''' remote_removed) [] flat =
       Some ([ListFileStatus ''acct'' '''' None '''' '''' None,
              ListFileStatus ''acct'' ''x'' None '''' '''' None],
             None, Inr \<lparr>Prefixes = [], Items = [], IsTruncated = False\<rparr>)
   \<and> ListBlobs 2 (backend '''' remote_removed) [] (flat\<lparr>lb_Prefix := Some ''x''\<rparr>) =
       Some ([ListFileStatus ''acct'' ''x'' None '''' '''' None],
             None, Inr \<lparr>Prefixes = [], Items = [], IsTruncated = False\<rparr>)"
proof -
  let ?b = "backend '''' remote_removed"
  have sup: "supported flat" "supported (flat\<lparr>lb_Prefix := Some ''x''\<rparr>)"
    by (simp_all add: supported_def flat_fields)
  have root: "list_error ?b [] '''' = None"
    by (rule list_error_ok) (rule removed_replies)
  have es: "FileStatus (list_reply ?b [] '''') = [fileEntry ''y'' 1, dirEntry ''x'']"
    by (simp add: list_reply_def removed_replies okReply_FileStatus)
  have nf: "\<not> ('''' \<noteq> '''' \<and> length (FileStatus (list_reply ?b [] '''')) = 1
      \<and> PathSuffix (FileStatus (list_reply ?b [] '''') ! 0) = '''')"
    by simp
  have gone: "list_error ?b h ''x'' = Some (Errno ENOENT)" for h
    using list_error_status [OF removed_replies(2), of h]
    by (simp add: backend_fields)
  have x: "appendToListResults (Suc n) ?b h ''x'' True '''' None p i =
      Some (h @ [ListFileStatus ''acct'' ''x'' None '''' '''' None],
            None, (None, [], [], Some (Errno ENOENT)))"
    for n h p i
    by (simp add: body_error [OF gone] list_request_example)
  have "appendToListResults (Suc (Suc 0)) ?b [] '''' True '''' None [] [] =
     Some ([ListFileStatus ''acct'' '''' None '''' '''' None,
            ListFileStatus ''acct'' ''x'' None '''' '''' None],
           None, (Some (list_reply ?b [] ''''), [], [], None))"
    unfolding appendToListResults.simps(2) [of "Suc 0"] body_directory [OF root nf]
    by (simp add: es list_loop_directory_recursive list_loop_leaf entry_fields x
        list_request_example child_key_def TrimRight_def
        del: list_loop.simps(2) appendToListResults.simps)
  then have nested: "ListBlobs 2 ?b [] flat =
       Some ([ListFileStatus ''acct'' '''' None '''' '''' None,
              ListFileStatus ''acct'' ''x'' None '''' '''' None],
             None, Inr \<lparr>Prefixes = [], Items = [], IsTruncated = False\<rparr>)"
    by (simp add: ListBlobs_supported [OF sup(1)] numeral_2_eq_2 flat_fields backend_fields(8)
        del: appendToListResults.simps)
  have top: "ListBlobs 2 ?b [] (flat\<lparr>lb_Prefix := Some ''x''\<rparr>) =
       Some ([ListFileStatus ''acct'' ''x'' None '''' '''' None],
             None, Inr \<lparr>Prefixes = [], Items = [], IsTruncated = False\<rparr>)"
    using x [of "Suc 0" "[]" "[]" "[]"]
    by (simp add: ListBlobs_supported [OF sup(2)] numeral_2_eq_2 flat_fields backend_fields(8)
        del: appendToListResults.simps)
  from gone nested top show ?thesis by simp
qed

theorem nested_not_found_empties_listing_witness:
  "\<exists>h mk out.
     ListBlobs 2 (backend '''' remote_removed) [] flat = Some (h, mk, Inr out)
     \<and> ListFileStatus ''acct'' ''x'' None '''' '''' None \<in> set h
     \<and> Items out = [] \<and> Prefixes out = []"
  using nested_not_found_empties_listing by simp

subsection \<open>The budget maxKeys\<close>

text \<open>
  A change of the budget that commutes with the decrement changes nothing but the budget
  that the calls leave behind. This holds for replacing the budget by none and for adding
  a constant to it.
\<close>

lemma list_loop_budget:
  assumes rec: "\<And>h pth r sa mk p i. rec h pth r sa (g mk) p i =
     map_option (\<lambda>(h', mk', res). (h', g mk', res)) (rec h pth r sa mk p i)"
  shows "list_loop rec h pth r (g mk) p i es =
     map_option (\<lambda>(h', mk', p', i'). (h', g mk', p', i')) (list_loop rec h pth r mk p i es)"
proof (induction es arbitrary: h mk p i)
  case Nil
  show ?case by simp
next
  case (Cons e es)
  show ?case
  proof (cases "Type e = ''DIRECTORY''")
    case False
    then show ?thesis by (simp add: list_loop_leaf Cons.IH del: list_loop.simps)
  next
    case True
    show ?thesis
    proof (cases r)
      case False
      with True Cons.IH show ?thesis
        by (simp add: list_loop_directory_nonrecursive del: list_loop.simps)
    next
      case r: True
      show ?thesis
      proof (cases "rec h (child_key pth e) True '''' mk p
                      (i @ [adlv1FileStatus2BlobItem e (child_key pth e @ ''/'')])")
        case None
        with True r show ?thesis
          by (simp add: list_loop_directory_recursive rec del: list_loop.simps)
      next
        case (Some x)
        then show ?thesis
          using True r Cons.IH
          by (cases x) (simp add: list_loop_directory_recursive rec del: list_loop.simps)
      qed
    qed
  qed
qed

lemma appendToListResults_budget:
  assumes g: "\<And>k mk. g (dec k mk) = dec k (g mk)"
  shows "appendToListResults n b h pth r sa (g mk) p i =
     map_option (\<lambda>(h', mk', res). (h', g mk', res)) (appendToListResults n b h pth r sa mk p i)"
proof (induction n arbitrary: h pth r sa mk p i)
  case 0
  show ?case by simp
next
  case (Suc n)
  show ?case
  proof (cases "list_error b h pth")
    case (Some e)
    then show ?thesis by (simp add: body_error)
  next
    case None
    show ?thesis
    proof (cases "names_file b h pth")
      case True
      then obtain f where "FileStatus (list_reply b h pth) = [f]" "PathSuffix f = ''''"
        "pth \<noteq> ''''"
        by (cases "FileStatus (list_reply b h pth)") (auto simp: names_file_def)
      with None show ?thesis by (simp add: body_file)
    next
      case False
      then have nf: "\<not> (pth \<noteq> '''' \<and> length (FileStatus (list_reply b h pth)) = 1
          \<and> PathSuffix (FileStatus (list_reply b h pth) ! 0) = '''')"
        by (simp add: names_file_def)
      have d: "(case g mk of None \<Rightarrow> None | Some m \<Rightarrow> Some (m - of_nat k)) =
          g (case mk of None \<Rightarrow> None | Some m \<Rightarrow> Some (m - of_nat k))" for k
        using g [of k mk] by (simp add: dec_def)
      have loop: "list_loop (appendToListResults n b) h0 pth0 r (g mk0) p0 i0 es =
          map_option (\<lambda>(h', mk', p', i'). (h', g mk', p', i'))
            (list_loop (appendToListResults n b) h0 pth0 r mk0 p0 i0 es)" for h0 pth0 mk0 p0 i0 es
        by (rule list_loop_budget) (rule Suc.IH)
      show ?thesis
        unfolding appendToListResults.simps body_directory [OF None nf] d loop
        by (cases "list_loop (appendToListResults n b) (h @ [list_request b pth])
              (TrimRight pth ''/'') r
              (case mk of None \<Rightarrow> None
               | Some m \<Rightarrow> Some (m - of_nat (length (FileStatus (list_reply b h pth)))))
              (p @ (if pth \<noteq> '''' \<and> \<not> r \<and> \<not> HasSuffix pth ''/''
                    then [\<lparr>Prefix = pth @ ''/''\<rparr>] else []))
              (i @ (if pth \<noteq> '''' \<and> \<not> r \<and> HasSuffix pth ''/''
                    then [\<lparr>Key = pth, LastModified = None, Size = 0\<rparr>] else []))
              (FileStatus (list_reply b h pth))")
          (simp_all add: split_def)
    qed
  qed
qed

lemma ListBlobs_budget:
  assumes g: "\<And>k mk. g (dec k mk) = dec k (g mk)"
  shows "ListBlobs n b h (param\<lparr>MaxKeys := g mk\<rparr>) =
     map_option (\<lambda>(h', mk', r). (h', g mk', r)) (ListBlobs n b h (param\<lparr>MaxKeys := mk\<rparr>))"
proof (cases "supported param")
  case False
  then have "\<not> supported (param\<lparr>MaxKeys := x\<rparr>)" for x
    by (simp add: supported_def)
  then show ?thesis by (simp add: ListBlobs_unsupported)
next
  case True
  then have sup: "supported (param\<lparr>MaxKeys := x\<rparr>)" for x
    by (simp add: supported_def)
  show ?thesis
  proof (cases "appendToListResults n b h (nilStr b (lb_Prefix param)) (Delimiter param = None)
      '''' mk [] []")
    case None
    then show ?thesis
      by (simp add: ListBlobs_supported [OF sup] appendToListResults_budget [of g, OF g])
  next
    case (Some x)
    obtain h' mk' res ps its e where x: "x = (h', mk', (res, ps, its, e))"
      by (cases x) auto
    show ?thesis
    proof (cases "if e = Some (Errno ENOENT) then None else e")
      case None
      with Some x show ?thesis
        by (simp add: ListBlobs_supported [OF sup] appendToListResults_budget [of g, OF g])
    next
      case (Some e')
      with \<open>appendToListResults n b h (nilStr b (lb_Prefix param)) (Delimiter param = None)
          '''' mk [] [] = Some x\<close> x show ?thesis
        by (simp add: ListBlobs_supported [OF sup] appendToListResults_budget [of g, OF g])
    qed
  qed
qed

lemma ListBlobs_budget_independent:
  "map_option (\<lambda>(h', mk', r). (h', r)) (ListBlobs n b h (param\<lparr>MaxKeys := mk1\<rparr>)) =
   map_option (\<lambda>(h', mk', r). (h', r)) (ListBlobs n b h (param\<lparr>MaxKeys := mk2\<rparr>))"
proof -
  have none: "map_option (\<lambda>(h', mk', r). (h', r)) (ListBlobs n b h (param\<lparr>MaxKeys := None\<rparr>)) =
      map_option (\<lambda>(h', mk', r). (h', r)) (ListBlobs n b h (param\<lparr>MaxKeys := mk\<rparr>))" for mk
    using ListBlobs_budget [where g = "\<lambda>_. None" and mk = mk and n = n and b = b and h = h
        and param = param]
    by (simp add: dec_def option.map_comp comp_def split_def)
  show ?thesis
    using none [of mk1] none [of mk2] by simp
qed

lemma ListBlobs_truncated:
  assumes "ListBlobs n b h param = Some (h', mk', Inr out)"
  shows "IsTruncated out = False"
proof (cases "supported param")
  case False
  with assms show ?thesis by (simp add: ListBlobs_unsupported)
next
  case True
  show ?thesis
  proof (cases "appendToListResults n b h (nilStr b (lb_Prefix param)) (Delimiter param = None)
      '''' (MaxKeys param) [] []")
    case None
    with True assms show ?thesis by (simp add: ListBlobs_supported)
  next
    case (Some x)
    obtain h1 mk1 a ps its e where x: "x = (h1, mk1, (a, ps, its, e))"
      by (cases x) auto
    from True Some x assms show ?thesis
      by (cases "if e = Some (Errno ENOENT) then None else e") (auto simp: ListBlobs_supported)
  qed
qed
text \<open>The budget left is the budget given less the entries fetched, modulo \<open>2 ^ 32\<close>.\<close>

lemma fetched_append:
  "fetched b h (xs @ ys) = fetched b h xs + fetched b (h @ map (list_request b) xs) ys"
  by (induction xs arbitrary: h) simp_all

lemma list_loop_fetched:
  assumes rec: "\<And>h pth r sa m p i h' mk' res.
      rec h pth r sa (Some m) p i = Some (h', mk', res) \<Longrightarrow>
      \<exists>pths. h' = h @ map (list_request b) pths \<and> mk' = Some (m - of_nat (fetched b h pths))"
  shows "list_loop rec h pth r (Some m) p i es = Some (h', mk', p', i') \<Longrightarrow>
      \<exists>pths. h' = h @ map (list_request b) pths \<and> mk' = Some (m - of_nat (fetched b h pths))"
proof (induction es arbitrary: h m p i)
  case Nil
  then have "h' = h @ map (list_request b) [] \<and> mk' = Some (m - of_nat (fetched b h []))"
    by simp
  then show ?case by blast
next
  case (Cons e es)
  show ?case
  proof (cases "Type e = ''DIRECTORY''")
    case False
    with Cons.prems show ?thesis
      by (simp add: list_loop_leaf Cons.IH del: list_loop.simps)
  next
    case True
    show ?thesis
    proof (cases r)
      case False
      with True Cons.prems Cons.IH show ?thesis
        by (simp add: list_loop_directory_nonrecursive del: list_loop.simps)
    next
      case r: True
      from Cons.prems True r obtain h1 m1 x p1 i1 y where
        call: "rec h (child_key pth e) True '''' (Some m) p
                 (i @ [adlv1FileStatus2BlobItem e (child_key pth e @ ''/'')]) =
               Some (h1, m1, (x, p1, i1, y))"
        and rest: "list_loop rec h1 pth True m1 p1 i1 es = Some (h', mk', p', i')"
        by (auto simp: list_loop_directory_recursive simp del: list_loop.simps
            split: option.splits)
      from rec [OF call] obtain qs where
        qs: "h1 = h @ map (list_request b) qs" "m1 = Some (m - of_nat (fetched b h qs))"
        by blast
      from Cons.IH [of h1 "m - of_nat (fetched b h qs)" p1 i1] rest qs r obtain rs where
        rs: "h' = h1 @ map (list_request b) rs"
          "mk' = Some (m - of_nat (fetched b h qs) - of_nat (fetched b h1 rs))"
        by auto
      have "h' = h @ map (list_request b) (qs @ rs)
          \<and> mk' = Some (m - of_nat (fetched b h (qs @ rs)))"
        using qs rs by (simp add: fetched_append)
      then show ?thesis by blast
    qed
  qed
qed

lemma appendToListResults_fetched:
  "appendToListResults n b h pth r sa (Some m) p i = Some (h', mk', res) \<Longrightarrow>
   \<exists>pths. h' = h @ map (list_request b) pths \<and> mk' = Some (m - of_nat (fetched b h pths))"
proof (induction n arbitrary: h pth r sa m p i h' mk' res)
  case 0
  then show ?case by simp
next
  case (Suc n)
  show ?case
  proof (cases "list_error b h pth")
    case (Some e)
    with Suc.prems have "h' = h @ map (list_request b) [pth]
        \<and> mk' = Some (m - of_nat (fetched b h [pth]))"
      by (simp add: body_error)
    then show ?thesis by blast
  next
    case None
    show ?thesis
    proof (cases "names_file b h pth")
      case True
      then obtain f where "FileStatus (list_reply b h pth) = [f]" "PathSuffix f = ''''"
        "pth \<noteq> ''''"
        by (cases "FileStatus (list_reply b h pth)") (auto simp: names_file_def)
      with None Suc.prems True have "h' = h @ map (list_request b) [pth]
          \<and> mk' = Some (m - of_nat (fetched b h [pth]))"
        by (simp add: body_file)
      then show ?thesis by blast
    next
      case False
      then have nf: "\<not> (pth \<noteq> '''' \<and> length (FileStatus (list_reply b h pth)) = 1
          \<and> PathSuffix (FileStatus (list_reply b h pth) ! 0) = '''')"
        by (simp add: names_file_def)
      from Suc.prems obtain p2 i2 where
        loop: "list_loop (appendToListResults n b) (h @ [list_request b pth])
           (TrimRight pth ''/'') r
           (Some (m - of_nat (length (FileStatus (list_reply b h pth)))))
           (p @ (if pth \<noteq> '''' \<and> \<not> r \<and> \<not> HasSuffix pth ''/''
                 then [\<lparr>Prefix = pth @ ''/''\<rparr>] else []))
           (i @ (if pth \<noteq> '''' \<and> \<not> r \<and> HasSuffix pth ''/''
                 then [\<lparr>Key = pth, LastModified = None, Size = 0\<rparr>] else []))
           (FileStatus (list_reply b h pth)) = Some (h', mk', p2, i2)"
        by (auto simp: body_directory [OF None nf] split: option.splits)
      have "\<exists>qs. h' = (h @ [list_request b pth]) @ map (list_request b) qs
          \<and> mk' = Some (m - of_nat (length (FileStatus (list_reply b h pth)))
                   - of_nat (fetched b (h @ [list_request b pth]) qs))"
      proof (rule list_loop_fetched [where rec = "appendToListResults n b", OF _ loop])
        fix h0 pth0 r0 sa0 m0 p0 i0 h1 mk1 res1
        assume "appendToListResults n b h0 pth0 r0 sa0 (Some m0) p0 i0 = Some (h1, mk1, res1)"
        then show "\<exists>pths. h1 = h0 @ map (list_request b) pths
            \<and> mk1 = Some (m0 - of_nat (fetched b h0 pths))"
          by (rule Suc.IH)
      qed
      then obtain qs where
        qs: "h' = (h @ [list_request b pth]) @ map (list_request b) qs"
          "mk' = Some (m - of_nat (length (FileStatus (list_reply b h pth)))
                   - of_nat (fetched b (h @ [list_request b pth]) qs))"
        by blast
      have "h' = h @ map (list_request b) (pth # qs)
          \<and> mk' = Some (m - of_nat (fetched b h (pth # qs)))"
        using qs None False by simp
      then show ?thesis by blast
    qed
  qed
qed

lemma ListBlobs_fetched:
  assumes "ListBlobs n b h param = Some (h', mk', r)" and "MaxKeys param = Some m"
  shows "\<exists>pths. h' = h @ map (list_request b) pths \<and> mk' = Some (m - of_nat (fetched b h pths))"
proof (cases "supported param")
  case False
  with assms have "h' = h @ map (list_request b) [] \<and> mk' = Some (m - of_nat (fetched b h []))"
    by (simp add: ListBlobs_unsupported)
  then show ?thesis by blast
next
  case True
  show ?thesis
  proof (cases "appendToListResults n b h (nilStr b (lb_Prefix param)) (Delimiter param = None)
      '''' (Some m) [] []")
    case None
    with assms True show ?thesis by (simp add: ListBlobs_supported)
  next
    case (Some x)
    obtain h1 mk1 res where x: "x = (h1, mk1, res)"
      by (cases x) auto
    obtain a ps its e where res: "res = (a, ps, its, e)"
      by (cases res) auto
    have "h1 = h'" "mk1 = mk'"
      using assms True Some x res
      by (cases "if e = Some (Errno ENOENT) then None else e"; simp add: ListBlobs_supported)+
    with Some x show ?thesis
      using appendToListResults_fetched by blast
  qed
qed

lemma budget_wraps:
  fixes m :: uint32
  assumes "unat m < k" and "k < 2 ^ 32"
  shows "unat (m - of_nat k) = 2 ^ 32 + unat m - k"
proof -
  have k: "unat (of_nat k :: uint32) = k"
    using assms(2) by (simp add: unat_of_nat)
  show ?thesis
    using assms(1) by (simp add: unat_sub_if_size k word_size)
qed

lemma ListBlobs_directory_budget:
  assumes "Delimiter param = Some ''/''"
    and "MaxKeys param = Some m"
    and "list_error b h (nilStr b (lb_Prefix param)) = None"
    and "\<not> names_file b h (nilStr b (lb_Prefix param))"
  shows "\<exists>r. ListBlobs (Suc n) b h param =
     Some (h @ [list_request b (nilStr b (lb_Prefix param))],
       Some (m - of_nat (length (FileStatus (list_reply b h (nilStr b (lb_Prefix param)))))), r)"
proof -
  have sup: "supported param"
    using assms(1) by (simp add: supported_def)
  have nf: "\<not> (nilStr b (lb_Prefix param) \<noteq> ''''
      \<and> length (FileStatus (list_reply b h (nilStr b (lb_Prefix param)))) = 1
      \<and> PathSuffix (FileStatus (list_reply b h (nilStr b (lb_Prefix param))) ! 0) = '''')"
    using assms(4) by (simp add: names_file_def)
  show ?thesis
    using assms(1,2)
    by (simp add: ListBlobs_supported [OF sup] body_directory [OF assms(3) nf]
        list_loop_nonrecursive)
qed

text \<open>
  C9. The budget has no effect on what a listing does: two calls that differ only in
  \<open>MaxKeys\<close> (two budgets, or a budget and none) send the same requests and return the same
  prefixes, items and error, for every bound on the depth of the calls, and an output is
  never marked truncated. When a budget \<open>m\<close> is given, the value left in it is \<open>m\<close> less
  the sum of the entries fetched by the directory calls of the traversal, in arithmetic
  modulo \<open>2 ^ 32\<close>. For a delimited listing of a directory, which is one directory call,
  the budget left is \<open>m\<close> less the number of entries of the listing, and when that number
  is larger than \<open>m\<close> the budget left is \<open>2 ^ 32 + m\<close> less that number and not zero.
\<close>

theorem maxKeys_wraps_and_truncates_nothing:
  "map_option (\<lambda>(h', mk', r). (h', r)) (ListBlobs n b h (param\<lparr>MaxKeys := mk1\<rparr>)) =
   map_option (\<lambda>(h', mk', r). (h', r)) (ListBlobs n b h (param\<lparr>MaxKeys := mk2\<rparr>))
   \<and> (\<forall>h' mk' out. ListBlobs n b h param = Some (h', mk', Inr out) \<longrightarrow>
        IsTruncated out = False)
   \<and> (\<forall>h' mk' r m. ListBlobs n b h param = Some (h', mk', r) \<and> MaxKeys param = Some m \<longrightarrow>
        (\<exists>pths. h' = h @ map (list_request b) pths
               \<and> mk' = Some (m - of_nat (fetched b h pths))))
   \<and> (\<forall>m. Delimiter param = Some ''/'' \<and> MaxKeys param = Some m
          \<and> list_error b h (nilStr b (lb_Prefix param)) = None
          \<and> \<not> names_file b h (nilStr b (lb_Prefix param)) \<longrightarrow>
        (\<exists>r. ListBlobs (Suc n) b h param =
           Some (h @ [list_request b (nilStr b (lb_Prefix param))],
             Some (m - of_nat (length (FileStatus (list_reply b h (nilStr b (lb_Prefix param)))))),
             r))
        \<and> (unat m < length (FileStatus (list_reply b h (nilStr b (lb_Prefix param))))
            \<and> length (FileStatus (list_reply b h (nilStr b (lb_Prefix param)))) < 2 ^ 32 \<longrightarrow>
           unat (m - of_nat (length (FileStatus (list_reply b h (nilStr b (lb_Prefix param)))))) =
             2 ^ 32 + unat m - length (FileStatus (list_reply b h (nilStr b (lb_Prefix param))))))"
  using ListBlobs_budget_independent [where n = n and b = b and h = h and param = param
      and ?mk1.0 = mk1 and ?mk2.0 = mk2]
    ListBlobs_truncated [where n = n and b = b and h = h and param = param]
    ListBlobs_fetched [where n = n and b = b and h = h and param = param]
    ListBlobs_directory_budget [where n = n and b = b and h = h and param = param]
    budget_wraps
  by blast
theorem maxKeys_wraps_and_truncates_nothing_witness:
  "map_option (\<lambda>(h', mk', r). (h', r))
     (ListBlobs 0 (backend '''' remote_tree) [] ((delimited ''d'' (Some 1))\<lparr>MaxKeys := Some 7\<rparr>)) =
   map_option (\<lambda>(h', mk', r). (h', r))
     (ListBlobs 0 (backend '''' remote_tree) [] ((delimited ''d'' (Some 1))\<lparr>MaxKeys := None\<rparr>))
   \<and> (\<exists>r. ListBlobs (Suc 0) (backend '''' remote_tree) [] (delimited ''d'' (Some 1)) =
          Some ([ListFileStatus ''acct'' ''d'' None '''' '''' None], Some 4294967295, r))
   \<and> unat ((1 :: uint32) - of_nat 2) = 2 ^ 32 + unat (1 :: uint32) - 2"
proof -
  let ?b = "backend '''' remote_tree"
  let ?p = "delimited ''d'' (Some 1)"
  note T = maxKeys_wraps_and_truncates_nothing [where n = 0 and b = ?b and h = "[]"
      and param = ?p and ?mk1.0 = "Some 7" and ?mk2.0 = None]
  have 1: "Delimiter ?p = Some ''/''" and 2: "MaxKeys ?p = Some 1"
    and 3: "nilStr ?b (lb_Prefix ?p) = ''d''"
    by (simp_all add: delimited_fields backend_fields(8))
  have 4: "list_error ?b [] ''d'' = None"
    by (rule list_error_ok) (rule tree_replies)
  have 5: "FileStatus (list_reply ?b [] ''d'') = [fileEntry ''a'' 3, dirEntry ''b'']"
    by (simp add: list_reply_def tree_replies okReply_FileStatus)
  have 6: "\<not> names_file ?b [] ''d''"
    by (simp add: names_file_def 5)
  have w: "(4294967295 :: uint32) = - 1"
    by simp
  from T have a: "map_option (\<lambda>(h', mk', r). (h', r)) (ListBlobs 0 ?b [] (?p\<lparr>MaxKeys := Some 7\<rparr>)) =
      map_option (\<lambda>(h', mk', r). (h', r)) (ListBlobs 0 ?b [] (?p\<lparr>MaxKeys := None\<rparr>))"
    by (rule conjunct1)
  from T have "Delimiter ?p = Some ''/'' \<and> MaxKeys ?p = Some 1
          \<and> list_error ?b [] (nilStr ?b (lb_Prefix ?p)) = None
          \<and> \<not> names_file ?b [] (nilStr ?b (lb_Prefix ?p)) \<longrightarrow>
        (\<exists>r. ListBlobs (Suc 0) ?b [] ?p =
           Some ([] @ [list_request ?b (nilStr ?b (lb_Prefix ?p))],
             Some (1 - of_nat (length (FileStatus (list_reply ?b [] (nilStr ?b (lb_Prefix ?p)))))),
             r))
        \<and> (unat (1 :: uint32) < length (FileStatus (list_reply ?b [] (nilStr ?b (lb_Prefix ?p))))
            \<and> length (FileStatus (list_reply ?b [] (nilStr ?b (lb_Prefix ?p)))) < 2 ^ 32 \<longrightarrow>
           unat ((1 :: uint32) - of_nat (length (FileStatus (list_reply ?b [] (nilStr ?b (lb_Prefix ?p)))))) =
             2 ^ 32 + unat (1 :: uint32) - length (FileStatus (list_reply ?b [] (nilStr ?b (lb_Prefix ?p)))))"
    by blast
  then have b: "(\<exists>r. ListBlobs (Suc 0) ?b [] ?p =
           Some ([ListFileStatus ''acct'' ''d'' None '''' '''' None], Some 4294967295, r))
        \<and> unat ((1 :: uint32) - of_nat 2) = 2 ^ 32 + unat (1 :: uint32) - 2"
    using 1 2 4 6 by (simp add: 3 5 list_request_example w)
  from a b show ?thesis by simp
qed

subsection \<open>A directory that cannot be listed, in a recursive listing\<close>

text \<open>
  C6 at a concrete remote. The root holds a directory \<open>x\<close> and a file \<open>y\<close>, and the
  listing of \<open>x\<close> is refused with status 403. The recursive listing of the root sends both
  directory listings and returns without error; the placeholder row \<open>x/\<close>, appended before
  the call for \<open>x\<close>, is gone from the items, which hold the row of \<open>y\<close> alone.
\<close>

theorem recursive_listing_drops_rows:
  "ListBlobs 2 (backend '''' (remote_unlistable 403)) [] flat =
     Some ([ListFileStatus ''acct'' '''' None '''' '''' None,
            ListFileStatus ''acct'' ''x'' None '''' '''' None],
           None,
           Inr \<lparr>Prefixes = [],
                Items = [adlv1FileStatus2BlobItem (fileEntry ''y'' 1) ''y''],
                IsTruncated = False\<rparr>)"
proof -
  let ?b = "backend '''' (remote_unlistable 403)"
  have sup: "supported flat"
    by (simp add: supported_def flat_fields)
  have root: "list_error ?b [] '''' = None"
    by (rule list_error_ok) (rule unlistable_replies)
  have es: "FileStatus (list_reply ?b [] '''') = [dirEntry ''x'', fileEntry ''y'' 1]"
    by (simp add: list_reply_def unlistable_replies okReply_FileStatus)
  have nf: "\<not> ('''' \<noteq> '''' \<and> length (FileStatus (list_reply ?b [] '''')) = 1
      \<and> PathSuffix (FileStatus (list_reply ?b [] '''') ! 0) = '''')"
    by simp
  have denied: "list_error ?b [ListFileStatus ''acct'' '''' None '''' '''' None] ''x'' =
      Some (Errno EACCES)"
    using list_error_status [OF unlistable_replies(2), of 403
        "[ListFileStatus ''acct'' '''' None '''' '''' None]"]
    by (simp add: backend_fields)
  have x: "appendToListResults (Suc 0) ?b
      [ListFileStatus ''acct'' '''' None '''' '''' None] ''x'' True '''' None p i =
      Some ([ListFileStatus ''acct'' '''' None '''' '''' None,
             ListFileStatus ''acct'' ''x'' None '''' '''' None],
            None, (None, [], [], Some (Errno EACCES)))"
    for p i
    by (simp add: body_error [OF denied] list_request_example)
  have "appendToListResults (Suc (Suc 0)) ?b [] '''' True '''' None [] [] =
     Some ([ListFileStatus ''acct'' '''' None '''' '''' None,
            ListFileStatus ''acct'' ''x'' None '''' '''' None],
           None, (Some (list_reply ?b [] ''''), [],
                [adlv1FileStatus2BlobItem (fileEntry ''y'' 1) ''y''], None))"
    unfolding appendToListResults.simps(2) [of "Suc 0"] body_directory [OF root nf]
    by (simp add: es list_loop_directory_recursive list_loop_leaf entry_fields x
        list_request_example child_key_def TrimRight_def
        del: list_loop.simps(2) appendToListResults.simps)
  then show ?thesis
    by (simp add: ListBlobs_supported [OF sup] numeral_2_eq_2 flat_fields backend_fields(8)
        del: appendToListResults.simps)
qed
theorem recursive_listing_drops_rows_witness:
  "\<exists>h mk out.
     ListBlobs 2 (backend '''' (remote_unlistable 403)) [] flat = Some (h, mk, Inr out)
     \<and> ListFileStatus ''acct'' ''x'' None '''' '''' None \<in> set h
     \<and> count_list (map Key (Items out)) ''x/'' = 0
     \<and> Prefixes out = []"
  using recursive_listing_drops_rows
  by (simp add: adlv1FileStatus2BlobItem_def)

subsection \<open>Recursive listings\<close>

lemma file_rows_append:
  "file_rows b h (xs @ ys) = file_rows b h xs + file_rows b (h @ map (list_request b) xs) ys"
  by (induction xs arbitrary: h) simp_all

lemma list_loop_recursive_prefixes:
  assumes rec: "\<And>h pth sa mk p it h' mk' res p' it' e.
      rec h pth True sa mk p it = Some (h', mk', (res, p', it', e)) \<Longrightarrow> p' = p \<or> p' = []"
  shows "list_loop rec h pth True mk p it es = Some (h', mk', p', it') \<Longrightarrow> p' = p \<or> p' = []"
proof (induction es arbitrary: h mk p it)
  case Nil
  then show ?case by simp
next
  case (Cons e es)
  show ?case
  proof (cases "Type e = ''DIRECTORY''")
    case False
    with Cons.prems show ?thesis
      by (simp add: list_loop_leaf Cons.IH del: list_loop.simps)
  next
    case True
    from Cons.prems True obtain h1 m1 x p1 i1 y where
      call: "rec h (child_key pth e) True '''' mk p
               (it @ [adlv1FileStatus2BlobItem e (child_key pth e @ ''/'')]) =
             Some (h1, m1, (x, p1, i1, y))"
      and rest: "list_loop rec h1 pth True m1 p1 i1 es = Some (h', mk', p', it')"
      by (auto simp: list_loop_directory_recursive simp del: list_loop.simps
          split: option.splits)
    from rec [OF call] have "p1 = p \<or> p1 = []" .
    moreover from Cons.IH [OF rest] have "p' = p1 \<or> p' = []" .
    ultimately show ?thesis by auto
  qed
qed

lemma appendToListResults_recursive_prefixes:
  "appendToListResults n b h pth True sa mk p it = Some (h', mk', (res, p', it', e)) \<Longrightarrow>
   p' = p \<or> p' = []"
proof (induction n arbitrary: h pth sa mk p it h' mk' res p' it' e)
  case 0
  then show ?case by simp
next
  case (Suc n)
  show ?case
  proof (cases "list_error b h pth")
    case (Some e')
    with Suc.prems show ?thesis by (simp add: body_error)
  next
    case None
    show ?thesis
    proof (cases "names_file b h pth")
      case True
      then obtain f where "FileStatus (list_reply b h pth) = [f]" "PathSuffix f = ''''"
        "pth \<noteq> ''''"
        by (cases "FileStatus (list_reply b h pth)") (auto simp: names_file_def)
      with None Suc.prems show ?thesis by (simp add: body_file)
    next
      case False
      then have nf: "\<not> (pth \<noteq> '''' \<and> length (FileStatus (list_reply b h pth)) = 1
          \<and> PathSuffix (FileStatus (list_reply b h pth) ! 0) = '''')"
        by (simp add: names_file_def)
      from Suc.prems obtain mk0 where
        loop: "list_loop (appendToListResults n b) (h @ [list_request b pth])
           (TrimRight pth ''/'') True mk0 p it
           (FileStatus (list_reply b h pth)) = Some (h', mk', p', it')"
        by (auto simp: body_directory [OF None nf] split: option.splits)
      show ?thesis
      proof (rule list_loop_recursive_prefixes [where rec = "appendToListResults n b", OF _ loop])
        fix h0 pth0 sa0 mk0 p0 it0 h1 mk1 res1 p1 it1 e1
        assume "appendToListResults n b h0 pth0 True sa0 mk0 p0 it0 =
            Some (h1, mk1, (res1, p1, it1, e1))"
        then show "p1 = p0 \<or> p1 = []" by (rule Suc.IH)
      qed
    qed
  qed
qed

text \<open>
  A recursive listing that returns an output returns no prefixes, whatever the remote
  replies.
\<close>

theorem recursive_listing_has_no_prefixes:
  assumes "Delimiter param = None"
    and "ListBlobs n b h param = Some (h', mk', Inr out)"
  shows "Prefixes out = []"
proof (cases "supported param")
  case False
  with assms show ?thesis by (simp add: ListBlobs_unsupported)
next
  case True
  show ?thesis
  proof (cases "appendToListResults n b h (nilStr b (lb_Prefix param)) True
      '''' (MaxKeys param) [] []")
    case None
    with True assms show ?thesis by (simp add: ListBlobs_supported)
  next
    case (Some x)
    obtain h1 mk1 a ps its e where x: "x = (h1, mk1, (a, ps, its, e))"
      by (cases x) auto
    from Some x have "ps = [] \<or> ps = []"
      by (simp only: appendToListResults_recursive_prefixes)
    with True Some x assms show ?thesis
      by (cases "if e = Some (Errno ENOENT) then None else e") (auto simp: ListBlobs_supported)
  qed
qed

lemma nested_replies:
  "client (backend '''' remote_nested) h (list_request (backend '''' remote_nested) '''') =
     okReply [dirEntry ''x'', fileEntry ''y'' 1]"
  "client (backend '''' remote_nested) h (list_request (backend '''' remote_nested) ''x'') =
     okReply [fileEntry ''z'' 2]"
  by (simp_all add: list_request_example backend_fields remote_nested_def)

lemma nested_listing:
  "ListBlobs 2 (backend '''' remote_nested) [] flat =
     Some ([ListFileStatus ''acct'' '''' None '''' '''' None,
            ListFileStatus ''acct'' ''x'' None '''' '''' None],
           None,
           Inr \<lparr>Prefixes = [],
                Items = [adlv1FileStatus2BlobItem (dirEntry ''x'') ''x/'',
                         adlv1FileStatus2BlobItem (fileEntry ''z'' 2) ''x/z'',
                         adlv1FileStatus2BlobItem (fileEntry ''y'' 1) ''y''],
                IsTruncated = False\<rparr>)"
proof -
  let ?b = "backend '''' remote_nested"
  let ?h1 = "[ListFileStatus ''acct'' '''' None '''' '''' None]"
  have sup: "supported flat"
    by (simp add: supported_def flat_fields)
  have root: "list_error ?b [] '''' = None"
    by (rule list_error_ok) (rule nested_replies)
  have es: "FileStatus (list_reply ?b [] '''') = [dirEntry ''x'', fileEntry ''y'' 1]"
    by (simp add: list_reply_def nested_replies okReply_FileStatus)
  have nf: "\<not> ('''' \<noteq> '''' \<and> length (FileStatus (list_reply ?b [] '''')) = 1
      \<and> PathSuffix (FileStatus (list_reply ?b [] '''') ! 0) = '''')"
    by simp
  have sub: "list_error ?b ?h1 ''x'' = None"
    by (rule list_error_ok) (rule nested_replies)
  have subes: "FileStatus (list_reply ?b ?h1 ''x'') = [fileEntry ''z'' 2]"
    by (simp add: list_reply_def nested_replies okReply_FileStatus)
  have subnf: "\<not> (''x'' \<noteq> '''' \<and> length (FileStatus (list_reply ?b ?h1 ''x'')) = 1
      \<and> PathSuffix (FileStatus (list_reply ?b ?h1 ''x'') ! 0) = '''')"
    by (simp add: subes entry_fields)
  have x: "appendToListResults (Suc 0) ?b ?h1 ''x'' True '''' None p i =
      Some ([ListFileStatus ''acct'' '''' None '''' '''' None,
             ListFileStatus ''acct'' ''x'' None '''' '''' None],
            None, (Some (list_reply ?b ?h1 ''x''), p,
                   i @ [adlv1FileStatus2BlobItem (fileEntry ''z'' 2) ''x/z''], None))"
    for p i
    unfolding appendToListResults.simps body_directory [OF sub subnf]
    by (simp add: subes list_loop_leaf entry_fields list_request_example child_key_def
        TrimRight_def del: list_loop.simps(2))
  have "appendToListResults (Suc (Suc 0)) ?b [] '''' True '''' None [] [] =
     Some ([ListFileStatus ''acct'' '''' None '''' '''' None,
            ListFileStatus ''acct'' ''x'' None '''' '''' None],
           None, (Some (list_reply ?b [] ''''), [],
                [adlv1FileStatus2BlobItem (dirEntry ''x'') ''x/'',
                 adlv1FileStatus2BlobItem (fileEntry ''z'' 2) ''x/z'',
                 adlv1FileStatus2BlobItem (fileEntry ''y'' 1) ''y''], None))"
    unfolding appendToListResults.simps(2) [of "Suc 0"] body_directory [OF root nf]
    by (simp add: es list_loop_directory_recursive list_loop_leaf entry_fields x
        list_request_example child_key_def TrimRight_def
        del: list_loop.simps(2) appendToListResults.simps)
  then show ?thesis
    by (simp add: ListBlobs_supported [OF sup] numeral_2_eq_2 flat_fields backend_fields(8)
        del: appendToListResults.simps)
qed

theorem recursive_listing_has_no_prefixes_witness:
  "\<exists>h mk out. ListBlobs 2 (backend '''' remote_nested) [] flat = Some (h, mk, Inr out)
     \<and> Prefixes out = []"
proof -
  obtain h mk out where r: "ListBlobs 2 (backend '''' remote_nested) [] flat =
      Some (h, mk, Inr out)"
    using nested_listing by blast
  from recursive_listing_has_no_prefixes [OF flat_fields(2) r] r show ?thesis
    by blast
qed

lemma rows_added_refl: "rows_added b h h it it 0"
  unfolding rows_added_def
  by (rule exI [of _ "[]"], rule exI [of _ "[]"]) simp

lemma rows_added_trans:
  assumes "rows_added b h h1 it it1 j" and "rows_added b h1 h2 it1 it2 k"
  shows "rows_added b h h2 it it2 (j + k)"
proof -
  from assms(1) obtain qs rs where 1: "h1 = h @ map (list_request b) qs" "it1 = it @ rs"
    "length rs = j + fetched b h qs + file_rows b h qs"
    unfolding rows_added_def by blast
  from assms(2) obtain qs' rs' where 2: "h2 = h1 @ map (list_request b) qs'" "it2 = it1 @ rs'"
    "length rs' = k + fetched b h1 qs' + file_rows b h1 qs'"
    unfolding rows_added_def by blast
  have "h2 = h @ map (list_request b) (qs @ qs') \<and> it2 = it @ (rs @ rs')
      \<and> length (rs @ rs') = (j + k) + fetched b h (qs @ qs') + file_rows b h (qs @ qs')"
    using 1 2 by (simp add: fetched_append file_rows_append)
  then show ?thesis
    unfolding rows_added_def by blast
qed

lemma rows_added_one: "rows_added b h h it (it @ [x]) 1"
  unfolding rows_added_def
  by (rule exI [of _ "[]"], rule exI [of _ "[x]"]) simp

lemma rows_added_call:
  assumes "rows_added b (h @ [list_request b pth]) h' it it' k"
    and "c = (if list_error b h pth = None \<and> \<not> names_file b h pth
              then length (FileStatus (list_reply b h pth)) else 0)
           + (if list_error b h pth = None \<and> names_file b h pth \<and> \<not> HasSuffix pth ''/''
              then 1 else 0)"
    and "k = j + c"
  shows "rows_added b h h' it it' j"
proof -
  from assms(1) obtain qs rs where 1: "h' = (h @ [list_request b pth]) @ map (list_request b) qs"
    "it' = it @ rs"
    "length rs = k + fetched b (h @ [list_request b pth]) qs
       + file_rows b (h @ [list_request b pth]) qs"
    unfolding rows_added_def by blast
  have "h' = h @ map (list_request b) (pth # qs) \<and> it' = it @ rs
      \<and> length rs = j + fetched b h (pth # qs) + file_rows b h (pth # qs)"
    using 1 assms(2,3) by simp
  then show ?thesis
    unfolding rows_added_def by blast
qed

lemma list_loop_recursive_rows:
  assumes rec: "\<And>h pth sa mk p it h' mk' res p' it' e.
      rec h pth True sa mk p it = Some (h', mk', (res, p', it', e)) \<Longrightarrow>
      e = None \<and> p' = p \<and> rows_added b h h' it it' 0"
  shows "list_loop rec h pth True mk p it es = Some (h', mk', p', it') \<Longrightarrow>
      p' = p \<and> rows_added b h h' it it' (length es)"
proof (induction es arbitrary: h mk it)
  case Nil
  then show ?case by (simp add: rows_added_refl)
next
  case (Cons e es)
  show ?case
  proof (cases "Type e = ''DIRECTORY''")
    case False
    with Cons.prems have
      rest: "list_loop rec h pth True mk p (it @ [adlv1FileStatus2BlobItem e (child_key pth e)]) es =
        Some (h', mk', p', it')"
      by (simp add: list_loop_leaf del: list_loop.simps)
    from Cons.IH [OF rest] have p: "p' = p"
      and r: "rows_added b h h' (it @ [adlv1FileStatus2BlobItem e (child_key pth e)]) it'
        (length es)"
      by simp_all
    from rows_added_trans [OF rows_added_one r] p show ?thesis by simp
  next
    case True
    from Cons.prems True obtain h1 m1 x p1 i1 y where
      call: "rec h (child_key pth e) True '''' mk p
               (it @ [adlv1FileStatus2BlobItem e (child_key pth e @ ''/'')]) =
             Some (h1, m1, (x, p1, i1, y))"
      and rest: "list_loop rec h1 pth True m1 p1 i1 es = Some (h', mk', p', it')"
      by (auto simp: list_loop_directory_recursive simp del: list_loop.simps
          split: option.splits)
    from rec [OF call] have p1: "p1 = p"
      and r1: "rows_added b h h1 (it @ [adlv1FileStatus2BlobItem e (child_key pth e @ ''/'')]) i1 0"
      by simp_all
    from rest p1 have rest': "list_loop rec h1 pth True m1 p i1 es = Some (h', mk', p', it')"
      by simp
    from Cons.IH [OF rest'] have p: "p' = p" and r2: "rows_added b h1 h' i1 it' (length es)"
      by simp_all
    from rows_added_trans [OF rows_added_trans [OF rows_added_one r1] r2] p
    show ?thesis by simp
  qed
qed

lemma appendToListResults_recursive_rows:
  assumes ok: "\<And>h pth. list_error b h pth = None"
  shows "appendToListResults n b h pth True sa mk p it = Some (h', mk', (res, p', it', e)) \<Longrightarrow>
     e = None \<and> p' = p \<and> rows_added b h h' it it' 0"
proof (induction n arbitrary: h pth sa mk p it h' mk' res p' it' e)
  case 0
  then show ?case by simp
next
  case (Suc n)
  have None: "list_error b h pth = None"
    by (rule ok)
  show ?case
  proof (cases "names_file b h pth")
    case True
    then obtain f where f: "FileStatus (list_reply b h pth) = [f]" "PathSuffix f = ''''"
      "pth \<noteq> ''''"
      by (cases "FileStatus (list_reply b h pth)") (auto simp: names_file_def)
    show ?thesis
    proof (cases "HasSuffix pth ''/''")
      case suffix: True
      with None f Suc.prems have "e = None" "p' = p" "h' = h @ [list_request b pth]" "it' = it"
        by (simp_all add: body_file)
      moreover have "rows_added b h (h @ [list_request b pth]) it it 0"
        by (rule rows_added_call [OF rows_added_refl]) (simp_all add: None True suffix)
      ultimately show ?thesis by simp
    next
      case suffix: False
      with None f Suc.prems have "e = None" "p' = p" "h' = h @ [list_request b pth]"
        "it' = it @ [adlv1FileStatus2BlobItem f pth]"
        by (simp_all add: body_file)
      moreover have "rows_added b h (h @ [list_request b pth]) it
          (it @ [adlv1FileStatus2BlobItem f pth]) 0"
        by (rule rows_added_call [OF rows_added_one]) (simp_all add: None True suffix)
      ultimately show ?thesis by simp
    qed
  next
    case False
    then have nf: "\<not> (pth \<noteq> '''' \<and> length (FileStatus (list_reply b h pth)) = 1
        \<and> PathSuffix (FileStatus (list_reply b h pth) ! 0) = '''')"
      by (simp add: names_file_def)
    from Suc.prems obtain mk0 where
      loop: "list_loop (appendToListResults n b) (h @ [list_request b pth])
         (TrimRight pth ''/'') True mk0 p it
         (FileStatus (list_reply b h pth)) = Some (h', mk', p', it')"
      and e: "e = None"
      by (auto simp: body_directory [OF None nf] split: option.splits)
    have "p' = p \<and> rows_added b (h @ [list_request b pth]) h' it it'
        (length (FileStatus (list_reply b h pth)))"
    proof (rule list_loop_recursive_rows [where rec = "appendToListResults n b", OF _ loop])
      fix h0 pth0 sa0 mk0 p0 it0 h1 mk1 res1 p1 it1 e1
      assume "appendToListResults n b h0 pth0 True sa0 mk0 p0 it0 =
          Some (h1, mk1, (res1, p1, it1, e1))"
      then show "e1 = None \<and> p1 = p0 \<and> rows_added b h0 h1 it0 it1 0" by (rule Suc.IH)
    qed
    then have p: "p' = p" and r: "rows_added b (h @ [list_request b pth]) h' it it'
        (length (FileStatus (list_reply b h pth)))"
      by simp_all
    have "rows_added b h h' it it' 0"
      by (rule rows_added_call [OF r]) (simp_all add: None False)
    with e p show ?thesis by simp
  qed
qed

text \<open>
  A recursive listing against a remote on which no directory listing fails. It returns an
  output without prefixes, it sent directory listings only, and its items are one row for
  each entry that those listings fetched, and one row for each listed path that named a
  file. In the loop, a directory entry first gets its placeholder row, with the key of the
  entry and a trailing delimiter, then the call for the directory appends the rows of its
  children behind it and changes nothing before it, and the loop goes on from there.
\<close>

theorem recursive_listing_rows:
  assumes "Delimiter param = None" and "ContinuationToken param = None"
    and "StartAfter param = None"
    and ok: "\<And>h pth. list_error b h pth = None"
  shows "(\<forall>h' mk' r. ListBlobs n b h param = Some (h', mk', r) \<longrightarrow>
            (\<exists>out. r = Inr out \<and> Prefixes out = [] \<and> rows_added b h h' [] (Items out) 0))
     \<and> (\<forall>res. Type i = ''DIRECTORY''
            \<and> list_loop (appendToListResults n b) h0 pth True mk p it (i # rest) = Some res \<longrightarrow>
          (\<exists>h1 mk1 x rows.
             appendToListResults n b h0 (child_key pth i) True '''' mk p
               (it @ [adlv1FileStatus2BlobItem i (child_key pth i @ ''/'')]) =
               Some (h1, mk1,
                 (x, p, it @ adlv1FileStatus2BlobItem i (child_key pth i @ ''/'') # rows, None))
           \<and> list_loop (appendToListResults n b) h1 pth True mk1 p
               (it @ adlv1FileStatus2BlobItem i (child_key pth i @ ''/'') # rows) rest =
               Some res))"
proof -
  have sup: "supported param"
    using assms(1-3) by (simp add: supported_def)
  have top: "\<exists>out. r = Inr out \<and> Prefixes out = [] \<and> rows_added b h h' [] (Items out) 0"
    if run: "ListBlobs n b h param = Some (h', mk', r)" for h' mk' r
  proof (cases "appendToListResults n b h (nilStr b (lb_Prefix param)) True
      '''' (MaxKeys param) [] []")
    case None
    with run sup assms(1) show ?thesis by (simp add: ListBlobs_supported)
  next
    case (Some y)
    obtain h1 mk1 a ps its e where y: "y = (h1, mk1, (a, ps, its, e))"
      by (cases y) auto
    from appendToListResults_recursive_rows [OF ok Some [unfolded y]]
    have "e = None" "ps = []" "rows_added b h h1 [] its 0"
      by simp_all
    with run sup assms(1) Some y show ?thesis
      by (auto simp: ListBlobs_supported)
  qed
  have step: "\<exists>h1 mk1 x rows.
             appendToListResults n b h0 (child_key pth i) True '''' mk p
               (it @ [adlv1FileStatus2BlobItem i (child_key pth i @ ''/'')]) =
               Some (h1, mk1,
                 (x, p, it @ adlv1FileStatus2BlobItem i (child_key pth i @ ''/'') # rows, None))
           \<and> list_loop (appendToListResults n b) h1 pth True mk1 p
               (it @ adlv1FileStatus2BlobItem i (child_key pth i @ ''/'') # rows) rest =
               Some res"
    if dir: "Type i = ''DIRECTORY''"
      and run: "list_loop (appendToListResults n b) h0 pth True mk p it (i # rest) = Some res"
    for res
  proof -
    from run dir obtain h1 m1 x p1 i1 y where
      call: "appendToListResults n b h0 (child_key pth i) True '''' mk p
               (it @ [adlv1FileStatus2BlobItem i (child_key pth i @ ''/'')]) =
             Some (h1, m1, (x, p1, i1, y))"
      and rest: "list_loop (appendToListResults n b) h1 pth True m1 p1 i1 rest = Some res"
      by (auto simp: list_loop_directory_recursive simp del: list_loop.simps
          split: option.splits)
    from appendToListResults_recursive_rows [OF ok call]
    have "y = None" "p1 = p"
      and "rows_added b h0 h1 (it @ [adlv1FileStatus2BlobItem i (child_key pth i @ ''/'')]) i1 0"
      by simp_all
    then obtain rows where
      "i1 = it @ adlv1FileStatus2BlobItem i (child_key pth i @ ''/'') # rows"
      by (auto simp: rows_added_def)
    with call rest \<open>y = None\<close> \<open>p1 = p\<close> show ?thesis by blast
  qed
  from top step show ?thesis by blast
qed

lemma nested_no_failure: "list_error (backend '''' remote_nested) h pth = None"
proof -
  have "\<exists>es. client (backend '''' remote_nested) h
      (list_request (backend '''' remote_nested) pth) = okReply es"
    by (auto simp: list_request_example backend_fields remote_nested_def)
  then show ?thesis
    using list_error_ok by blast
qed

theorem recursive_listing_rows_witness:
  "\<exists>h mk out. ListBlobs 2 (backend '''' remote_nested) [] flat = Some (h, mk, Inr out)
     \<and> Prefixes out = []
     \<and> rows_added (backend '''' remote_nested) [] h [] (Items out) 0
     \<and> Items out = [adlv1FileStatus2BlobItem (dirEntry ''x'') ''x/'',
                      adlv1FileStatus2BlobItem (fileEntry ''z'' 2) ''x/z'',
                      adlv1FileStatus2BlobItem (fileEntry ''y'' 1) ''y'']"
  using recursive_listing_rows [OF flat_fields(2,5,4) nested_no_failure,
      where n = 2 and h = "[]", THEN conjunct1]
    nested_listing
  by auto


section \<open>Multipart upload\<close>

lemma Commit_result:
  assumes "backend_data param = ADLv1MultipartBlobCommitInput sz"
    and "uuid_FromString b (UploadId param) = Inr l"
  shows "MultipartBlobCommit b h param =
     Returns (h @ [close_request b param sz l],
       (case classify b h (close_request b param sz l) False of
          None \<Rightarrow> Inr ()
        | Some e \<Rightarrow> if e = Errno ENOENT then Inr () else Inl e))"
  using assms
  by (simp add: MultipartBlobCommit_def call_def classify_def close_request_def Let_def
      split: option.splits)

text \<open>
  C3. On a handle of the adapter whose upload id is the text of a lease, Commit sends one
  request, the zero-length append with the close flag at the cumulative size. When its
  reply is classified as not found, Commit returns success; when it is classified as any
  other error, Commit returns that error.
\<close>

theorem commit_swallows_not_found:
  assumes "backend_data param = ADLv1MultipartBlobCommitInput sz"
    and "uuid_FromString b (UploadId param) = Inr l"
  shows "(classify b h (close_request b param sz l) False = Some (Errno ENOENT) \<longrightarrow>
            MultipartBlobCommit b h param = Returns (h @ [close_request b param sz l], Inr ()))
       \<and> (\<forall>e. classify b h (close_request b param sz l) False = Some e \<and> e \<noteq> Errno ENOENT \<longrightarrow>
            MultipartBlobCommit b h param = Returns (h @ [close_request b param sz l], Inl e))"
  by (simp add: Commit_result [OF assms])

lemma classify_status:
  "classify (backend bkt (remote_status status)) h q False =
     (case httpTable status of
        Some e \<Rightarrow> if status < 200 \<or> 300 \<le> status then Some e else None
      | None \<Rightarrow> if status < 200 \<or> 300 \<le> status then Some (Errno EINVAL) else None)"
  by (simp add: classify_def backend_fields remote_status_def failReply_def mapADLv1Error_def
      split: option.splits)

theorem commit_swallows_not_found_witness:
  "MultipartBlobCommit (backend ''root'' (remote_status 404)) []
     \<lparr>mp_Key = ''root/obj'', UploadId = ''lease'',
      backend_data = ADLv1MultipartBlobCommitInput 150\<rparr> =
     Returns ([Append ''acct'' ''root/obj'' '''' (Some 150) CLOSE (Some ''lease'') (Some ''lease'')],
       Inr ())
   \<and> MultipartBlobCommit (backend ''root'' (remote_status 403)) []
     \<lparr>mp_Key = ''root/obj'', UploadId = ''lease'',
      backend_data = ADLv1MultipartBlobCommitInput 150\<rparr> =
     Returns ([Append ''acct'' ''root/obj'' '''' (Some 150) CLOSE (Some ''lease'') (Some ''lease'')],
       Inl (Errno EACCES))"
proof -
  let ?c = "\<lparr>mp_Key = ''root/obj'', UploadId = ''lease'',
      backend_data = ADLv1MultipartBlobCommitInput 150\<rparr>"
  have 1: "backend_data ?c = ADLv1MultipartBlobCommitInput 150"
    by simp
  have 2: "uuid_FromString (backend ''root'' r) (UploadId ?c) = Inr ''lease''" for r
    by (simp add: backend_fields)
  have a: "MultipartBlobCommit (backend ''root'' (remote_status 404)) [] ?c =
      Returns ([] @ [close_request (backend ''root'' (remote_status 404)) ?c 150 ''lease''], Inr ())"
    using commit_swallows_not_found [OF 1 2, where h = "[]", THEN conjunct1]
    by (simp add: classify_status httpTable_def)
  have b: "MultipartBlobCommit (backend ''root'' (remote_status 403)) [] ?c =
      Returns ([] @ [close_request (backend ''root'' (remote_status 403)) ?c 150 ''lease''],
        Inl (Errno EACCES))"
    using commit_swallows_not_found [OF 1 2, where h = "[]", THEN conjunct2]
    by (simp add: classify_status httpTable_def)
  from a b show ?thesis
    by (simp add: close_request_def backend_fields)
qed

lemma uploadPart_bad_offset:
  assumes "uuid_FromString b (UploadId (Commit param)) = Inr l"
    and "classify b h (part_request b (Commit param) (add_Body param) (offset - add_Size param) l)
           True = Some (ADLv1Err ex r)"
    and "StatusCode r = 400" and "Exception ex = ''BadOffsetException''"
  shows "uploadPart b h param offset =
     (h @ [part_request b (Commit param) (add_Body param) (offset - add_Size param) l,
           close_request b (Commit param) offset l],
      (if classify b
            (h @ [part_request b (Commit param) (add_Body param) (offset - add_Size param) l])
            (close_request b (Commit param) offset l) False = None
       then None
       else Some (case mapHttpError b 400 of Some e \<Rightarrow> e | None \<Rightarrow> Errno EINVAL)))"
  using assms
  by (simp add: uploadPart_def detectTransientError_def call_def classify_def
      part_request_def close_request_def Let_def mapADLv1Error_def split: option.splits)

text \<open>
  C2. On a handle of the adapter with cumulative size \<open>sz\<close>, when the append of an Add,
  sent at offset \<open>sz\<close>, is classified as the structured error of status 400 with the
  exception name \<open>BadOffsetException\<close>, the Add sends exactly one more request: the
  zero-length append with the close flag at the new cumulative size, under the same
  lease. When that probe is classified as no error, the Add returns success. When the
  probe fails, the Add returns the error of the first append, not that of the probe: the
  classification of the first response by its status alone, which is the entry of the
  status table for 400, or \<open>EINVAL\<close> where the table has none. The handle holds the new
  cumulative size in both cases.
\<close>

theorem add_recovers_from_bad_offset:
  assumes "backend_data (Commit param) = ADLv1MultipartBlobCommitInput sz"
    and "uuid_FromString b (UploadId (Commit param)) = Inr l"
    and "classify b h (part_request b (Commit param) (add_Body param) sz l) True =
           Some (ADLv1Err ex r)"
    and "StatusCode r = 400" and "Exception ex = ''BadOffsetException''"
  shows "MultipartBlobAdd b h param =
     Returns
       (h @ [part_request b (Commit param) (add_Body param) sz l,
             close_request b (Commit param) (sz + add_Size param) l],
        (Commit param)\<lparr>backend_data := ADLv1MultipartBlobCommitInput (sz + add_Size param)\<rparr>,
        (if classify b (h @ [part_request b (Commit param) (add_Body param) sz l])
              (close_request b (Commit param) (sz + add_Size param) l) False = None
         then Inr ()
         else Inl (case mapHttpError b 400 of Some e \<Rightarrow> e | None \<Rightarrow> Errno EINVAL)))"
proof -
  let ?c = "(Commit param)\<lparr>backend_data := ADLv1MultipartBlobCommitInput (sz + add_Size param)\<rparr>"
  let ?p = "param\<lparr>Commit := ?c\<rparr>"
  have 1: "uuid_FromString b (UploadId (Commit ?p)) = Inr l"
    using assms(2) by simp
  have 2: "classify b h
      (part_request b (Commit ?p) (add_Body ?p) (sz + add_Size param - add_Size ?p) l) True =
      Some (ADLv1Err ex r)"
    using assms(3) by (simp add: part_request_def)
  show ?thesis
    using assms(1) uploadPart_bad_offset [OF 1 2 assms(4,5)]
    by (simp add: MultipartBlobAdd_def Let_def part_request_def close_request_def)
qed
lemma bad_offset_replies:
  "classify (backend bkt (remote_bad_offset probe)) h
     (Append a p body off DATA lease session) True =
     Some (ADLv1Err badOffset \<lparr>StatusCode = 400, Body = Some badOffset\<rparr>)"
  "classify (backend bkt (remote_bad_offset probe)) h
     (Append a p body off CLOSE lease session) False =
     mapADLv1Error (backend bkt (remote_bad_offset probe)) (resp probe) (err probe) False"
  by (simp_all add: classify_def backend_fields remote_bad_offset_def failReply_def
      mapADLv1Error_def)

theorem add_recovers_from_bad_offset_witness:
  "MultipartBlobAdd (backend ''root'' (remote_bad_offset (okReply []))) []
     \<lparr>Commit = \<lparr>mp_Key = ''root/obj'', UploadId = ''lease'',
                 backend_data = ADLv1MultipartBlobCommitInput 100\<rparr>,
      add_Body = ''data'', add_Size = 50\<rparr> =
     Returns
       ([Append ''acct'' ''root/obj'' ''data'' (Some 100) DATA (Some ''lease'') (Some ''lease''),
         Append ''acct'' ''root/obj'' '''' (Some 150) CLOSE (Some ''lease'') (Some ''lease'')],
        \<lparr>mp_Key = ''root/obj'', UploadId = ''lease'',
         backend_data = ADLv1MultipartBlobCommitInput 150\<rparr>,
        Inr ())
   \<and> MultipartBlobAdd (backend ''root'' (remote_bad_offset (failReply 403 None))) []
     \<lparr>Commit = \<lparr>mp_Key = ''root/obj'', UploadId = ''lease'',
                 backend_data = ADLv1MultipartBlobCommitInput 100\<rparr>,
      add_Body = ''data'', add_Size = 50\<rparr> =
     Returns
       ([Append ''acct'' ''root/obj'' ''data'' (Some 100) DATA (Some ''lease'') (Some ''lease''),
         Append ''acct'' ''root/obj'' '''' (Some 150) CLOSE (Some ''lease'') (Some ''lease'')],
        \<lparr>mp_Key = ''root/obj'', UploadId = ''lease'',
         backend_data = ADLv1MultipartBlobCommitInput 150\<rparr>,
        Inl (Errno EINVAL))"
proof -
  let ?c = "\<lparr>mp_Key = ''root/obj'', UploadId = ''lease'',
      backend_data = ADLv1MultipartBlobCommitInput 100\<rparr>"
  let ?p = "\<lparr>Commit = ?c, add_Body = ''data'', add_Size = 50\<rparr>"
  let ?r = "\<lparr>StatusCode = 400, Body = Some badOffset\<rparr>"
  have 1: "backend_data (Commit ?p) = ADLv1MultipartBlobCommitInput 100"
    by simp
  have 2: "uuid_FromString (backend ''root'' rm) (UploadId (Commit ?p)) = Inr ''lease''" for rm
    by (simp add: backend_fields)
  have 3: "classify (backend ''root'' (remote_bad_offset probe)) []
      (part_request (backend ''root'' (remote_bad_offset probe)) (Commit ?p) (add_Body ?p) 100
         ''lease'') True = Some (ADLv1Err badOffset ?r)" for probe
    by (simp add: part_request_def bad_offset_replies)
  have 4: "StatusCode ?r = 400" and 5: "Exception badOffset = ''BadOffsetException''"
    by (simp_all add: badOffset_def)
  have a: "MultipartBlobAdd (backend ''root'' (remote_bad_offset (okReply []))) [] ?p =
     Returns
       ([Append ''acct'' ''root/obj'' ''data'' (Some 100) DATA (Some ''lease'') (Some ''lease''),
         Append ''acct'' ''root/obj'' '''' (Some 150) CLOSE (Some ''lease'') (Some ''lease'')],
        \<lparr>mp_Key = ''root/obj'', UploadId = ''lease'',
         backend_data = ADLv1MultipartBlobCommitInput 150\<rparr>,
        Inr ())"
    using add_recovers_from_bad_offset [OF 1 2 3 4 5, of "okReply []"]
    by (simp add: part_request_def close_request_def bad_offset_replies backend_fields
        okReply_def mapADLv1Error_def)
  have b: "MultipartBlobAdd (backend ''root'' (remote_bad_offset (failReply 403 None))) [] ?p =
     Returns
       ([Append ''acct'' ''root/obj'' ''data'' (Some 100) DATA (Some ''lease'') (Some ''lease''),
         Append ''acct'' ''root/obj'' '''' (Some 150) CLOSE (Some ''lease'') (Some ''lease'')],
        \<lparr>mp_Key = ''root/obj'', UploadId = ''lease'',
         backend_data = ADLv1MultipartBlobCommitInput 150\<rparr>,
        Inl (Errno EINVAL))"
    using add_recovers_from_bad_offset [OF 1 2 3 4 5, of "failReply 403 None"]
    by (simp add: part_request_def close_request_def bad_offset_replies backend_fields
        failReply_def mapADLv1Error_def httpTable_def)
  from a b show ?thesis by simp
qed

subsection \<open>The cumulative size over a sequence of Adds\<close>

lemma uploadPart_first_request:
  assumes "uuid_FromString b (UploadId (Commit param)) = Inr l"
  shows "\<exists>rest. fst (uploadPart b h param offset) =
     h @ part_request b (Commit param) (add_Body param) (offset - add_Size param) l # rest"
  using assms
  by (auto simp: uploadPart_def detectTransientError_def call_def part_request_def Let_def
      split: option.splits error.splits)

lemma Add_step:
  assumes "backend_data commit = ADLv1MultipartBlobCommitInput sz"
    and "uuid_FromString b (UploadId commit) = Inr l"
  shows "\<exists>rest res. MultipartBlobAdd b h (add_part commit part) =
     Returns
       (h @ part_request b commit (fst part) (sz + snd part - snd part) l # rest,
        commit\<lparr>backend_data := ADLv1MultipartBlobCommitInput (sz + snd part)\<rparr>, res)"
proof -
  let ?c = "commit\<lparr>backend_data := ADLv1MultipartBlobCommitInput (sz + snd part)\<rparr>"
  let ?p = "(add_part commit part)\<lparr>Commit := ?c\<rparr>"
  have "uuid_FromString b (UploadId (Commit ?p)) = Inr l"
    using assms(2) by simp
  from uploadPart_first_request [OF this, of h "sz + snd part"] obtain rest where
    "fst (uploadPart b h ?p (sz + snd part)) =
       h @ part_request b commit (fst part) (sz + snd part - snd part) l # rest"
    by (auto simp: add_part_def part_request_def)
  then show ?thesis
    using assms(1)
    by (cases "uploadPart b h ?p (sz + snd part)")
      (auto simp: MultipartBlobAdd_def Let_def add_part_def split: option.splits)
qed

lemma session_adds_state:
  assumes "backend_data commit = ADLv1MultipartBlobCommitInput sz"
    and "uuid_FromString b (UploadId commit) = Inr l"
  shows "\<exists>h'. session_adds b h commit parts =
     Returns (h', commit\<lparr>backend_data :=
        ADLv1MultipartBlobCommitInput (sz + sum_list (map snd parts))\<rparr>)"
  using assms
proof (induction parts arbitrary: h commit sz)
  case Nil
  then show ?case by simp
next
  case (Cons part parts)
  let ?c = "commit\<lparr>backend_data := ADLv1MultipartBlobCommitInput (sz + snd part)\<rparr>"
  from Add_step [OF Cons.prems, of h part] obtain rest res where
    add: "MultipartBlobAdd b h (add_part commit part) =
       Returns (h @ part_request b commit (fst part) (sz + snd part - snd part) l # rest, ?c, res)"
    by blast
  have "backend_data ?c = ADLv1MultipartBlobCommitInput (sz + snd part)"
    and "uuid_FromString b (UploadId ?c) = Inr l"
    using Cons.prems by simp_all
  from Cons.IH [OF this] show ?case
    by (simp add: add add.assoc)
qed

lemma Begin_handle:
  assumes "MultipartBlobBegin b h0 (Inr l) key = (h1, Inr c0)"
  shows "c0 = \<lparr>mp_Key = path b key, UploadId = uuid_String b l,
               backend_data = ADLv1MultipartBlobCommitInput 0\<rparr>"
  using assms
  by (auto simp: MultipartBlobBegin_def call_def Let_def split: option.splits)

lemma unat_sum_list:
  "unat (sum_list ws :: uint64) = sum_list (map unat ws) mod 2 ^ 64"
  by (induction ws) (simp_all add: unat_word_ariths mod_add_right_eq)
text \<open>
  C1. Let Begin succeed with the lease \<open>l\<close>, whose text parses back to \<open>l\<close>, and let any
  sequence of Adds follow on the handle, each with a body and a declared size. Then, for
  the Add number \<open>k + 1\<close> of the sequence: the Adds before it return, the Add returns, it
  leaves the cumulative size at the sum of the first \<open>k + 1\<close> declared sizes, and the first
  request it sends is the append of its body at the offset that is this new size less its
  declared size, under the lease. After all the Adds the handle holds the sum of all the
  declared sizes, and Commit sends exactly the zero-length append with the close flag at
  that size. Sizes are \<open>uint64\<close> and the sums are taken there; they are the sums of the
  numbers whenever those stay below \<open>2 ^ 64\<close>.
\<close>

theorem multipart_offsets:
  assumes "MultipartBlobBegin b h0 (Inr l) key = (h1, Inr c0)"
    and "uuid_FromString b (uuid_String b l) = Inr l"
  shows "(k < length parts \<longrightarrow> (\<exists>hk ck rest res.
            session_adds b h1 c0 (take k parts) = Returns (hk, ck)
          \<and> MultipartBlobAdd b hk (add_part ck (parts ! k)) =
              Returns
                (hk @ part_request b c0 (fst (parts ! k))
                        (sum_list (map snd (take (Suc k) parts)) - snd (parts ! k)) l # rest,
                 c0\<lparr>backend_data :=
                    ADLv1MultipartBlobCommitInput (sum_list (map snd (take (Suc k) parts)))\<rparr>,
                 res)))
     \<and> (\<exists>hn res.
            session_adds b h1 c0 parts =
              Returns (hn, c0\<lparr>backend_data :=
                 ADLv1MultipartBlobCommitInput (sum_list (map snd parts))\<rparr>)
          \<and> MultipartBlobCommit b hn
               (c0\<lparr>backend_data := ADLv1MultipartBlobCommitInput (sum_list (map snd parts))\<rparr>) =
              Returns (hn @ [close_request b c0 (sum_list (map snd parts)) l], res))
     \<and> (sum_list (map (unat \<circ> snd) parts) < 2 ^ 64 \<longrightarrow>
          unat (sum_list (map snd parts)) = sum_list (map (unat \<circ> snd) parts))"
proof -
  have c0: "c0 = \<lparr>mp_Key = path b key, UploadId = uuid_String b l,
               backend_data = ADLv1MultipartBlobCommitInput 0\<rparr>"
    using assms(1) by (rule Begin_handle)
  have bd: "backend_data c0 = ADLv1MultipartBlobCommitInput 0"
    and id: "uuid_FromString b (UploadId c0) = Inr l"
    using c0 assms(2) by simp_all
  have state: "\<exists>h'. session_adds b h1 c0 ps =
      Returns (h', c0\<lparr>backend_data := ADLv1MultipartBlobCommitInput (sum_list (map snd ps))\<rparr>)"
    for ps
    using session_adds_state [OF bd id, of h1 ps] by simp
  have adds: "\<exists>hk ck rest res.
            session_adds b h1 c0 (take k parts) = Returns (hk, ck)
          \<and> MultipartBlobAdd b hk (add_part ck (parts ! k)) =
              Returns
                (hk @ part_request b c0 (fst (parts ! k))
                        (sum_list (map snd (take (Suc k) parts)) - snd (parts ! k)) l # rest,
                 c0\<lparr>backend_data :=
                    ADLv1MultipartBlobCommitInput (sum_list (map snd (take (Suc k) parts)))\<rparr>,
                 res)" if k: "k < length parts"
  proof -
    let ?ck = "c0\<lparr>backend_data :=
        ADLv1MultipartBlobCommitInput (sum_list (map snd (take k parts)))\<rparr>"
    from state [of "take k parts"] obtain hk where
      hk: "session_adds b h1 c0 (take k parts) = Returns (hk, ?ck)"
      by blast
    have "backend_data ?ck = ADLv1MultipartBlobCommitInput (sum_list (map snd (take k parts)))"
      and "uuid_FromString b (UploadId ?ck) = Inr l"
      using id by simp_all
    from Add_step [OF this, of hk "parts ! k"] obtain rest res where
      "MultipartBlobAdd b hk (add_part ?ck (parts ! k)) =
        Returns
          (hk @ part_request b ?ck (fst (parts ! k))
                  (sum_list (map snd (take k parts)) + snd (parts ! k) - snd (parts ! k)) l # rest,
           ?ck\<lparr>backend_data := ADLv1MultipartBlobCommitInput
              (sum_list (map snd (take k parts)) + snd (parts ! k))\<rparr>, res)"
      by blast
    moreover have "sum_list (map snd (take (Suc k) parts)) =
        sum_list (map snd (take k parts)) + snd (parts ! k)"
      using k by (simp add: take_Suc_conv_app_nth)
    ultimately show ?thesis
      using hk by (auto simp: part_request_def)
  qed
  have commit: "\<exists>hn res.
            session_adds b h1 c0 parts =
              Returns (hn, c0\<lparr>backend_data :=
                 ADLv1MultipartBlobCommitInput (sum_list (map snd parts))\<rparr>)
          \<and> MultipartBlobCommit b hn
               (c0\<lparr>backend_data := ADLv1MultipartBlobCommitInput (sum_list (map snd parts))\<rparr>) =
              Returns (hn @ [close_request b c0 (sum_list (map snd parts)) l], res)"
  proof -
    let ?cn = "c0\<lparr>backend_data := ADLv1MultipartBlobCommitInput (sum_list (map snd parts))\<rparr>"
    from state [of parts] obtain hn where
      hn: "session_adds b h1 c0 parts = Returns (hn, ?cn)"
      by blast
    have "backend_data ?cn = ADLv1MultipartBlobCommitInput (sum_list (map snd parts))"
      and "uuid_FromString b (UploadId ?cn) = Inr l"
      using id by simp_all
    from Commit_result [OF this, of hn] hn show ?thesis
      by (auto simp: close_request_def)
  qed
  have nat: "sum_list (map (unat \<circ> snd) parts) < 2 ^ 64 \<longrightarrow>
          unat (sum_list (map snd parts)) = sum_list (map (unat \<circ> snd) parts)"
    by (simp add: unat_sum_list comp_def)
  from adds commit nat show ?thesis by blast
qed

theorem multipart_offsets_witness:
  "MultipartBlobBegin (backend ''root'' remote_ok) [] (Inr ''lease'') ''obj'' =
     ([Create ''acct'' ''root/obj'' '''' (Some True) DATA (Some ''lease'') (Some 420)],
      Inr \<lparr>mp_Key = ''root/obj'', UploadId = ''lease'',
           backend_data = ADLv1MultipartBlobCommitInput 0\<rparr>)
   \<and> (\<exists>hk ck rest res.
         session_adds (backend ''root'' remote_ok)
           [Create ''acct'' ''root/obj'' '''' (Some True) DATA (Some ''lease'') (Some 420)]
           \<lparr>mp_Key = ''root/obj'', UploadId = ''lease'',
            backend_data = ADLv1MultipartBlobCommitInput 0\<rparr>
           [(replicate 100 (CHR ''a''), 100)] = Returns (hk, ck)
       \<and> MultipartBlobAdd (backend ''root'' remote_ok) hk
           (add_part ck (replicate 50 (CHR ''b''), 50)) =
           Returns
             (hk @ Append ''acct'' ''root/obj'' (replicate 50 (CHR ''b'')) (Some 100) DATA
                     (Some ''lease'') (Some ''lease'') # rest,
              \<lparr>mp_Key = ''root/obj'', UploadId = ''lease'',
               backend_data = ADLv1MultipartBlobCommitInput 150\<rparr>,
              res))
   \<and> (\<exists>hn res.
         session_adds (backend ''root'' remote_ok)
           [Create ''acct'' ''root/obj'' '''' (Some True) DATA (Some ''lease'') (Some 420)]
           \<lparr>mp_Key = ''root/obj'', UploadId = ''lease'',
            backend_data = ADLv1MultipartBlobCommitInput 0\<rparr>
           [(replicate 100 (CHR ''a''), 100), (replicate 50 (CHR ''b''), 50)] =
           Returns (hn, \<lparr>mp_Key = ''root/obj'', UploadId = ''lease'',
                         backend_data = ADLv1MultipartBlobCommitInput 150\<rparr>)
       \<and> MultipartBlobCommit (backend ''root'' remote_ok) hn
           \<lparr>mp_Key = ''root/obj'', UploadId = ''lease'',
            backend_data = ADLv1MultipartBlobCommitInput 150\<rparr> =
           Returns
             (hn @ [Append ''acct'' ''root/obj'' '''' (Some 150) CLOSE
                      (Some ''lease'') (Some ''lease'')], res))
   \<and> unat (150 :: uint64) = 150"
proof -
  let ?b = "backend ''root'' remote_ok"
  let ?h1 = "[Create ''acct'' ''root/obj'' '''' (Some True) DATA (Some ''lease'') (Some 420)]"
  let ?c0 = "\<lparr>mp_Key = ''root/obj'', UploadId = ''lease'',
      backend_data = ADLv1MultipartBlobCommitInput 0\<rparr>"
  let ?parts = "[(replicate 100 (CHR ''a''), 100 :: uint64), (replicate 50 (CHR ''b''), 50)]"
  have bg: "MultipartBlobBegin ?b [] (Inr ''lease'') ''obj'' = (?h1, Inr ?c0)"
    by (simp add: MultipartBlobBegin_def call_def backend_fields remote_ok_def okReply_def
        mapADLv1Error_def path_def TrimLeft_def)
  have rt: "uuid_FromString ?b (uuid_String ?b ''lease'') = Inr ''lease''"
    by (simp add: backend_fields)
  note T = multipart_offsets [OF bg rt, where k = 1 and parts = ?parts]
  from T have a: "\<exists>hk ck rest res.
         session_adds ?b ?h1 ?c0 [(replicate 100 (CHR ''a''), 100)] = Returns (hk, ck)
       \<and> MultipartBlobAdd ?b hk (add_part ck (replicate 50 (CHR ''b''), 50)) =
           Returns
             (hk @ Append ''acct'' ''root/obj'' (replicate 50 (CHR ''b'')) (Some 100) DATA
                     (Some ''lease'') (Some ''lease'') # rest,
              \<lparr>mp_Key = ''root/obj'', UploadId = ''lease'',
               backend_data = ADLv1MultipartBlobCommitInput 150\<rparr>,
              res)"
    by (simp add: part_request_def backend_fields del: session_adds.simps)
  from T have c: "\<exists>hn res.
         session_adds ?b ?h1 ?c0 ?parts =
           Returns (hn, \<lparr>mp_Key = ''root/obj'', UploadId = ''lease'',
                         backend_data = ADLv1MultipartBlobCommitInput 150\<rparr>)
       \<and> MultipartBlobCommit ?b hn
           \<lparr>mp_Key = ''root/obj'', UploadId = ''lease'',
            backend_data = ADLv1MultipartBlobCommitInput 150\<rparr> =
           Returns
             (hn @ [Append ''acct'' ''root/obj'' '''' (Some 150) CLOSE
                      (Some ''lease'') (Some ''lease'')], res)"
    by (simp add: close_request_def backend_fields del: session_adds.simps)
  from bg a c show ?thesis by simp
qed
section \<open>Deleting a batch\<close>

subsection \<open>The comparison is a strict total order\<close>

lemma Compare_refl: "Compare a a = 0"
  by (induction a) simp_all

lemma Compare_eq_0: "Compare a b = 0 \<Longrightarrow> a = b"
  by (induction a b rule: Compare.induct) (auto split: if_splits)

lemma Compare_flip: "Compare b a = - Compare a b"
  by (induction a b rule: Compare.induct) auto

lemma Compare_Cons_less:
  "Compare (x # xs) (y # ys) < 0 \<longleftrightarrow>
     (of_char x :: nat) < of_char y \<or> (x = y \<and> Compare xs ys < 0)"
proof -
  have "x = y" if "\<not> (of_char x :: nat) < of_char y" "\<not> (of_char y :: nat) < of_char x"
  proof -
    from that have "(of_char x :: nat) = of_char y" by simp
    then show ?thesis by (simp only: of_char_eq_iff)
  qed
  then show ?thesis by auto
qed

lemma Compare_trans: "Compare a b < 0 \<Longrightarrow> Compare b c < 0 \<Longrightarrow> Compare a c < 0"
proof (induction a arbitrary: b c)
  case Nil
  then show ?case by (cases b; cases c) simp_all
next
  case (Cons x xs)
  from Cons.prems obtain y ys where b: "b = y # ys"
    by (cases b) auto
  from Cons.prems b obtain z zs where c: "c = z # zs"
    by (cases c) auto
  from Cons.prems have xy: "(of_char x :: nat) < of_char y \<or> (x = y \<and> Compare xs ys < 0)"
    and yz: "(of_char y :: nat) < of_char z \<or> (y = z \<and> Compare ys zs < 0)"
    unfolding b c by (simp_all only: Compare_Cons_less)
  have "(of_char x :: nat) < of_char z \<or> (x = z \<and> Compare xs zs < 0)"
    using xy yz Cons.IH [of ys zs] by auto
  then show ?case
    unfolding c by (simp only: Compare_Cons_less)
qed

lemma less_items_irrefl: "\<not> less_items x x"
  by (simp add: less_items_def Compare_refl)

lemma less_items_trans:
  assumes "less_items x y" and "less_items y z"
  shows "less_items x z"
proof -
  from assms(1) have xy: "depth y < depth x \<or> (depth x = depth y \<and> Compare x y < 0)"
    by (simp add: less_items_def Let_def split: if_splits)
  from assms(2) have yz: "depth z < depth y \<or> (depth y = depth z \<and> Compare y z < 0)"
    by (simp add: less_items_def Let_def split: if_splits)
  from xy yz have "depth z < depth x \<or> (depth x = depth z \<and> Compare x z < 0)"
    using Compare_trans [of x y z] by auto
  then show ?thesis
    by (auto simp: less_items_def Let_def)
qed

lemma less_items_total:
  assumes "x \<noteq> y"
  shows "less_items x y \<or> less_items y x"
proof (cases "depth x = depth y")
  case False
  then show ?thesis by (auto simp: less_items_def Let_def)
next
  case True
  from assms have "Compare x y \<noteq> 0"
    using Compare_eq_0 by blast
  then have "Compare x y < 0 \<or> Compare y x < 0"
    using Compare_flip [of y x] by auto
  with True show ?thesis by (simp add: less_items_def Let_def)
qed

lemma less_items_asym: "less_items x y \<Longrightarrow> \<not> less_items y x"
  using less_items_trans [of x y x] less_items_irrefl by blast

text \<open>
  The comparison of the adapter agrees with the order of the specification: the pieces of
  \<open>strings.Split\<close> are one more than the delimiters, and \<open>strings.Compare\<close> is negative
  exactly on the pairs in lexicographic order.
\<close>

lemma Split_not_Nil: "Split s sep \<noteq> []"
  by (induction s) (simp_all split: list.splits)

lemma length_Split: "length (Split s sep) = Suc (count_list s sep)"
proof (induction s)
  case Nil
  show ?case by simp
next
  case (Cons c cs)
  obtain p ps where "Split cs sep = p # ps"
    using Split_not_Nil [of cs sep] by (cases "Split cs sep") auto
  with Cons show ?case by auto
qed

lemma depth_key_depth: "depth key = key_depth key"
  by (simp add: depth_def key_depth_def TrimRight_def length_Split)

lemma Compare_less_lexord:
  "Compare x y < 0 \<longleftrightarrow> (x, y) \<in> lexord {(c, d). (of_char c :: nat) < of_char d}"
proof (induction x y rule: Compare.induct)
  case (4 x xs y ys)
  then show ?case
    by (simp only: Compare_Cons_less lexord_cons_cons) auto
qed simp_all

lemma ordered_items_iff: "ordered_items x y \<longleftrightarrow> \<not> less_items y x"
proof -
  have "x = y \<or> Compare x y < 0 \<longleftrightarrow> \<not> Compare y x < 0"
    using Compare_flip [of y x] Compare_eq_0 [of x y] Compare_refl [of x] by auto
  then show ?thesis
    by (auto simp: ordered_items_def less_items_def Let_def depth_key_depth
        Compare_less_lexord [symmetric])
qed

subsection \<open>The sort\<close>

lemma mset_insert_Slice: "mset (insert_Slice lt x xs) = add_mset x (mset xs)"
  by (induction xs) simp_all

lemma mset_sort_Slice: "mset (sort_Slice lt xs) = mset xs"
  by (induction xs) (simp_all add: sort_Slice_def mset_insert_Slice)

lemma set_insert_Slice: "set (insert_Slice lt x xs) = insert x (set xs)"
  by (induction xs) auto

lemma sorted_insert_Slice:
  "sorted_wrt ordered_items xs \<Longrightarrow> sorted_wrt ordered_items (insert_Slice less_items x xs)"
proof (induction xs)
  case Nil
  show ?case by simp
next
  case (Cons y ys)
  show ?case
  proof (cases "less_items y x")
    case True
    then have "ordered_items y x"
      by (simp add: ordered_items_iff less_items_asym)
    with True Cons show ?thesis
      by (auto simp: set_insert_Slice)
  next
    case False
    then have xy: "ordered_items x y"
      by (simp add: ordered_items_iff)
    have "ordered_items x z" if "z \<in> set ys" for z
    proof -
      from that Cons.prems have "\<not> less_items z y"
        by (auto simp: ordered_items_iff)
      with False show ?thesis
        using less_items_total [of x y] less_items_trans [of z x y]
        by (auto simp: ordered_items_iff)
    qed
    with False xy Cons.prems show ?thesis by auto
  qed
qed

lemma sorted_sort_Slice: "sorted_wrt ordered_items (sort_Slice less_items xs)"
  by (induction xs) (simp_all add: sort_Slice_def sorted_insert_Slice)

text \<open>
  Two orderings of the same keys that are both in order are equal: whatever algorithm
  \<open>sort.Slice\<close> runs, it leaves the slice that \<open>sort_Slice\<close> computes.
\<close>

lemma sort_Slice_unique:
  "sorted_wrt ordered_items xs \<Longrightarrow> sorted_wrt ordered_items ys \<Longrightarrow> mset xs = mset ys \<Longrightarrow>
   xs = ys"
proof (induction xs arbitrary: ys)
  case Nil
  then show ?case by simp
next
  case (Cons x xs)
  from Cons.prems(3) obtain y ys' where ys: "ys = y # ys'"
    by (cases ys) auto
  have "x = y"
  proof (rule ccontr)
    assume neq: "x \<noteq> y"
    from Cons.prems(3) ys have "x \<in> set ys" "y \<in> set (x # xs)"
      by (metis list.set_intros(1) mset_eq_setD)+
    with neq ys have "x \<in> set ys'" "y \<in> set xs" by auto
    with Cons.prems(1,2) ys have "ordered_items y x" "ordered_items x y" by auto
    with neq show False
      using less_items_total [of x y] by (auto simp: ordered_items_iff)
  qed
  with Cons ys show ?case by auto
qed
subsection \<open>The deletes\<close>

lemma DeleteBlob_history: "fst (DeleteBlob b h key) = h @ [delete_request b key]"
  by (simp add: DeleteBlob_def call_def delete_request_def TrimRight_def Let_def
      split: option.splits)

lemma delete_result_0: "delete_result b h (k # ks) 0 = snd (DeleteBlob b h k)"
  by (simp add: delete_result_def)

lemma delete_result_Suc:
  "delete_result b h (k # ks) (Suc j) = delete_result b (h @ [delete_request b k]) ks j"
  by (simp add: delete_result_def)

lemma delete_loop_success:
  "snd (delete_loop b h ks) = Inr u \<Longrightarrow>
   fst (delete_loop b h ks) = h @ map (delete_request b) ks
   \<and> (\<forall>j < length ks. delete_result b h ks j = Inr ())"
proof (induction ks arbitrary: h)
  case Nil
  show ?case by simp
next
  case (Cons k ks)
  obtain h' r where d: "DeleteBlob b h k = (h', r)"
    by (cases "DeleteBlob b h k")
  with DeleteBlob_history [of b h k] have h': "h' = h @ [delete_request b k]"
    by simp
  from Cons.prems d obtain v where r: "r = Inr v" and
    rest: "snd (delete_loop b h' ks) = Inr u"
    by (cases r) auto
  from Cons.IH [OF rest] d r h' show ?case
    by (auto simp: less_Suc_eq_0_disj delete_result_0 delete_result_Suc)
qed

lemma delete_loop_failure:
  "snd (delete_loop b h ks) = Inl e \<Longrightarrow>
   \<exists>m < length ks.
     fst (delete_loop b h ks) = h @ map (delete_request b) (take (Suc m) ks)
     \<and> delete_result b h ks m = Inl e
     \<and> (\<forall>j < m. delete_result b h ks j = Inr ())"
proof (induction ks arbitrary: h)
  case Nil
  then show ?case by simp
next
  case (Cons k ks)
  obtain h' r where d: "DeleteBlob b h k = (h', r)"
    by (cases "DeleteBlob b h k")
  with DeleteBlob_history [of b h k] have h': "h' = h @ [delete_request b k]"
    by simp
  show ?case
  proof (cases r)
    case (Inl e')
    with Cons.prems d have "e' = e" by simp
    with Inl d h' have "fst (delete_loop b h (k # ks)) =
          h @ map (delete_request b) (take (Suc 0) (k # ks))
        \<and> delete_result b h (k # ks) 0 = Inl e
        \<and> (\<forall>j < 0. delete_result b h (k # ks) j = Inr ())"
      by (simp add: delete_result_0)
    then show ?thesis by blast
  next
    case (Inr v)
    with Cons.prems d have rest: "snd (delete_loop b h' ks) = Inl e"
      by simp
    from Cons.IH [OF rest] obtain m where m: "m < length ks"
      "fst (delete_loop b h' ks) = h' @ map (delete_request b) (take (Suc m) ks)"
      "delete_result b h' ks m = Inl e"
      "\<forall>j < m. delete_result b h' ks j = Inr ()"
      by blast
    have "Suc m < length (k # ks)
        \<and> fst (delete_loop b h (k # ks)) =
            h @ map (delete_request b) (take (Suc (Suc m)) (k # ks))
        \<and> delete_result b h (k # ks) (Suc m) = Inl e
        \<and> (\<forall>j < Suc m. delete_result b h (k # ks) j = Inr ())"
      using m d Inr h'
      by (auto simp: less_Suc_eq_0_disj delete_result_0 delete_result_Suc)
    then show ?thesis by blast
  qed
qed

lemma example_keys_sorted:
  "sorted_wrt ordered_items [''a/b/c'', ''a/b'', ''a'']"
  "sorted_wrt ordered_items [''dir/file'', ''a'', ''a/'', ''b'', ''dir/'']"
  by (simp_all add: ordered_items_def key_depth_def)

text \<open>
  C4. \<open>DeleteBlobs\<close> deletes the keys in the order of the sorted slice. The slice holds
  the keys of the input, each as often as the input does, and any key in it comes before
  another only if it is deeper, or as deep and not greater in the lexicographic order of
  the bytes, where the depth of a key is one more than the number of delimiters in the
  key stripped of its trailing delimiters. The deletes are sent one after the other, one
  request per key, for the path of the key without its trailing delimiters. When the
  batch succeeds, every key was deleted, in that order, and every delete succeeded. When
  it fails with an error, the requests sent are those of the keys up to the first delete
  that failed, that delete returned the error, and the ones before it succeeded. The keys
  \<open>a\<close>, \<open>a/b\<close> and \<open>a/b/c\<close>, in any order, are sorted to \<open>a/b/c\<close>, \<open>a/b\<close>, \<open>a\<close>. The keys
  \<open>dir/\<close>, \<open>dir/file\<close>, \<open>b\<close>, \<open>a/\<close> and \<open>a\<close>, in any order, are sorted to \<open>dir/file\<close>, then
  the keys of depth one in ascending order: \<open>a\<close>, \<open>a/\<close>, \<open>b\<close>, \<open>dir/\<close>.
\<close>

theorem deletion_order:
  "mset (sort_Slice less_items items) = mset items
   \<and> sorted_wrt
        (\<lambda>x y. key_depth y < key_depth x
           \<or> (key_depth x = key_depth y
               \<and> (x = y \<or> (x, y) \<in> lexord {(c, d). (of_char c :: nat) < of_char d})))
        (sort_Slice less_items items)
   \<and> (\<forall>u. snd (DeleteBlobs b h items) = Inr u \<longrightarrow>
        fst (DeleteBlobs b h items) = h @ map (delete_request b) (sort_Slice less_items items)
        \<and> (\<forall>j < length items.
             delete_result b h (sort_Slice less_items items) j = Inr ()))
   \<and> (\<forall>e. snd (DeleteBlobs b h items) = Inl e \<longrightarrow>
        (\<exists>m < length items.
           fst (DeleteBlobs b h items) =
             h @ map (delete_request b) (take (Suc m) (sort_Slice less_items items))
           \<and> delete_result b h (sort_Slice less_items items) m = Inl e
           \<and> (\<forall>j < m. delete_result b h (sort_Slice less_items items) j = Inr ())))
   \<and> (mset items = {#''a'', ''a/b'', ''a/b/c''#} \<longrightarrow>
        sort_Slice less_items items = [''a/b/c'', ''a/b'', ''a''])
   \<and> (mset items = {#''dir/'', ''dir/file'', ''b'', ''a/'', ''a''#} \<longrightarrow>
        sort_Slice less_items items = [''dir/file'', ''a'', ''a/'', ''b'', ''dir/''])"
proof -
  have len: "length (sort_Slice less_items items) = length items"
    using mset_sort_Slice [of less_items items] by (metis size_mset)
  have ex: "sort_Slice less_items items = ks"
    if "sorted_wrt ordered_items ks" and "mset items = mset ks" for ks
  proof (rule sort_Slice_unique)
    show "sorted_wrt ordered_items (sort_Slice less_items items)"
      by (rule sorted_sort_Slice)
    show "sorted_wrt ordered_items ks"
      by (rule that)
    show "mset (sort_Slice less_items items) = mset ks"
      using that by (simp add: mset_sort_Slice)
  qed
  have ex1: "sort_Slice less_items items = [''a/b/c'', ''a/b'', ''a'']"
    if "mset items = {#''a'', ''a/b'', ''a/b/c''#}"
    using that by (intro ex example_keys_sorted) simp
  have ex2: "sort_Slice less_items items = [''dir/file'', ''a'', ''a/'', ''b'', ''dir/'']"
    if "mset items = {#''dir/'', ''dir/file'', ''b'', ''a/'', ''a''#}"
    using that by (intro ex example_keys_sorted) simp
  have srt: "sorted_wrt
        (\<lambda>x y. key_depth y < key_depth x
           \<or> (key_depth x = key_depth y
               \<and> (x = y \<or> (x, y) \<in> lexord {(c, d). (of_char c :: nat) < of_char d})))
        (sort_Slice less_items items)"
    using sorted_sort_Slice [of items] by (simp add: ordered_items_def [abs_def])
  have ok: "\<forall>u. snd (DeleteBlobs b h items) = Inr u \<longrightarrow>
        fst (DeleteBlobs b h items) = h @ map (delete_request b) (sort_Slice less_items items)
        \<and> (\<forall>j < length items.
             delete_result b h (sort_Slice less_items items) j = Inr ())"
    using delete_loop_success [of b h "sort_Slice less_items items"]
    by (simp add: DeleteBlobs_def len)
  have ko: "\<forall>e. snd (DeleteBlobs b h items) = Inl e \<longrightarrow>
        (\<exists>m < length items.
           fst (DeleteBlobs b h items) =
             h @ map (delete_request b) (take (Suc m) (sort_Slice less_items items))
           \<and> delete_result b h (sort_Slice less_items items) m = Inl e
           \<and> (\<forall>j < m. delete_result b h (sort_Slice less_items items) j = Inr ()))"
    using delete_loop_failure [of b h "sort_Slice less_items items"]
    by (simp add: DeleteBlobs_def len)
  from mset_sort_Slice [of less_items items] srt ok ko ex1 ex2 show ?thesis
    by blast
qed

lemma DeleteBlob_ok:
  "DeleteBlob (backend '''' remote_ok) h key =
     (h @ [delete_request (backend '''' remote_ok) key], Inr ())"
  by (simp add: DeleteBlob_def call_def delete_request_def backend_fields remote_ok_def
      okReply_def mapADLv1Error_def TrimRight_def)

lemma DeleteBlob_refused:
  "DeleteBlob (backend '''' (remote_status 403)) h key =
     (h @ [delete_request (backend '''' (remote_status 403)) key], Inl (Errno EACCES))"
  by (simp add: DeleteBlob_def call_def delete_request_def backend_fields remote_status_def
      failReply_def mapADLv1Error_def httpTable_def TrimRight_def)

lemma delete_request_example:
  "delete_request (backend '''' remote) ''a/b/c'' = Delete ''acct'' ''a/b/c'' (Some False)"
  "delete_request (backend '''' remote) ''a/b'' = Delete ''acct'' ''a/b'' (Some False)"
  "delete_request (backend '''' remote) ''a'' = Delete ''acct'' ''a'' (Some False)"
  "delete_request (backend '''' remote) ''a/'' = Delete ''acct'' ''a'' (Some False)"
  "delete_request (backend '''' remote) ''b'' = Delete ''acct'' ''b'' (Some False)"
  "delete_request (backend '''' remote) ''dir/'' = Delete ''acct'' ''dir'' (Some False)"
  "delete_request (backend '''' remote) ''dir/file'' =
     Delete ''acct'' ''dir/file'' (Some False)"
  by (simp_all add: delete_request_def backend_fields path_def TrimLeft_def)

theorem deletion_order_witness:
  "sort_Slice less_items [''a/b'', ''a'', ''a/b/c''] = [''a/b/c'', ''a/b'', ''a'']
   \<and> sort_Slice less_items [''b'', ''dir/'', ''a/'', ''dir/file'', ''a''] =
       [''dir/file'', ''a'', ''a/'', ''b'', ''dir/'']
   \<and> DeleteBlobs (backend '''' remote_ok) [] [''a/b'', ''a'', ''a/b/c''] =
       ([Delete ''acct'' ''a/b/c'' (Some False), Delete ''acct'' ''a/b'' (Some False),
         Delete ''acct'' ''a'' (Some False)], Inr ())
   \<and> DeleteBlobs (backend '''' remote_ok) [] [''b'', ''dir/'', ''a/'', ''dir/file'', ''a''] =
       ([Delete ''acct'' ''dir/file'' (Some False), Delete ''acct'' ''a'' (Some False),
         Delete ''acct'' ''a'' (Some False), Delete ''acct'' ''b'' (Some False),
         Delete ''acct'' ''dir'' (Some False)], Inr ())
   \<and> DeleteBlobs (backend '''' (remote_status 403)) [] [''a/b'', ''a'', ''a/b/c''] =
       ([Delete ''acct'' ''a/b/c'' (Some False)], Inl (Errno EACCES))"
proof -
  let ?items = "[''a/b'', ''a'', ''a/b/c'']"
  let ?more = "[''b'', ''dir/'', ''a/'', ''dir/file'', ''a'']"
  have m: "mset ?items = {#''a'', ''a/b'', ''a/b/c''#}"
    by simp
  have m': "mset ?more = {#''dir/'', ''dir/file'', ''b'', ''a/'', ''a''#}"
    by simp
  have s: "sort_Slice less_items ?items = [''a/b/c'', ''a/b'', ''a'']"
    using deletion_order [where items = ?items] m by blast
  have s': "sort_Slice less_items ?more = [''dir/file'', ''a'', ''a/'', ''b'', ''dir/'']"
    using deletion_order [where items = ?more] m' by blast
  have ok: "snd (DeleteBlobs (backend '''' remote_ok) [] ?items) = Inr ()"
    by (simp add: DeleteBlobs_def s DeleteBlob_ok)
  have ok': "snd (DeleteBlobs (backend '''' remote_ok) [] ?more) = Inr ()"
    by (simp add: DeleteBlobs_def s' DeleteBlob_ok)
  have a: "fst (DeleteBlobs (backend '''' remote_ok) [] ?items) =
      [] @ map (delete_request (backend '''' remote_ok)) (sort_Slice less_items ?items)"
    using deletion_order [where items = ?items and b = "backend '''' remote_ok" and h = "[]"] ok
    by blast
  have a': "fst (DeleteBlobs (backend '''' remote_ok) [] ?more) =
      [] @ map (delete_request (backend '''' remote_ok)) (sort_Slice less_items ?more)"
    using deletion_order [where items = ?more and b = "backend '''' remote_ok" and h = "[]"] ok'
    by blast
  have b: "DeleteBlobs (backend '''' (remote_status 403)) [] ?items =
      ([Delete ''acct'' ''a/b/c'' (Some False)], Inl (Errno EACCES))"
    by (simp add: DeleteBlobs_def s DeleteBlob_refused delete_request_example)
  have c: "DeleteBlobs (backend '''' remote_ok) [] ?items =
       ([Delete ''acct'' ''a/b/c'' (Some False), Delete ''acct'' ''a/b'' (Some False),
         Delete ''acct'' ''a'' (Some False)], Inr ())"
    using a ok by (simp add: s delete_request_example prod_eq_iff)
  have c': "DeleteBlobs (backend '''' remote_ok) [] ?more =
       ([Delete ''acct'' ''dir/file'' (Some False), Delete ''acct'' ''a'' (Some False),
         Delete ''acct'' ''a'' (Some False), Delete ''acct'' ''b'' (Some False),
         Delete ''acct'' ''dir'' (Some False)], Inr ())"
    using a' ok' by (simp add: s' delete_request_example prod_eq_iff)
  from s s' b c c' show ?thesis by simp
qed

end
